theory Spec2Isabelle
  imports Complex_Main "HOL-Library.Multiset"
begin

section \<open>Values that cross the model boundary\<close>

text \<open>
  The reader (\<^verbatim>\<open>src/components/Reader.tsx\<close>) and its helpers (\<^verbatim>\<open>src/utils/ocr.ts\<close>)
  receive the model's answers as JSON text. What \<^verbatim>\<open>JSON.parse\<close> returns is a JavaScript
  value built from null, booleans, numbers, strings, arrays and objects; the TypeScript
  annotations are erased at run time, so the code handles whatever value arrives.
  Numbers carry the exact value of the double that was parsed. An object is the list of
  its own properties, each key once.

  Strings are sequences of code units; the model covers the code units below 256 and
  writes them as \<open>char\<close>.
\<close>

datatype json =
    JNull
  | JBool bool
  | JNum rat
  | JStr string
  | JArr "json list"
  | JObj "(string \<times> json) list"

text \<open>JavaScript truthiness, as used by \<^verbatim>\<open>!x\<close>, \<^verbatim>\<open>x || y\<close> and \<^verbatim>\<open>x && y\<close>.\<close>

fun truthy :: "json \<Rightarrow> bool" where
  "truthy JNull = False"
| "truthy (JBool b) = b"
| "truthy (JNum n) = (n \<noteq> 0)"
| "truthy (JStr s) = (s \<noteq> [])"
| "truthy (JArr xs) = True"
| "truthy (JObj kvs) = True"

text \<open>\<^verbatim>\<open>v || d\<close> where \<open>v\<close> may be \<^verbatim>\<open>undefined\<close> (\<open>None\<close>).\<close>

definition orElse :: "json option \<Rightarrow> json \<Rightarrow> json" where
  "orElse v d = (case v of None \<Rightarrow> d | Some x \<Rightarrow> if truthy x then x else d)"

text \<open>\<^verbatim>\<open>xs[i]\<close> on an array: \<^verbatim>\<open>undefined\<close> past the end.\<close>

definition elemAt :: "'a list \<Rightarrow> nat \<Rightarrow> 'a option" where
  "elemAt xs i = (if i < length xs then Some (xs ! i) else None)"

text \<open>
  A promise either rejects with an error message or resolves with a value; \<open>Inl\<close> is the
  rejection. The response of \<^verbatim>\<open>generateContent\<close> exposes \<^verbatim>\<open>response.text\<close>, a string or
  \<^verbatim>\<open>undefined\<close>.
\<close>

type_synonym 'a promise = "string + 'a"

section \<open>String helpers of the platform\<close>

text \<open>
  \<^verbatim>\<open>String.prototype.trim\<close> removes white space and line terminators from both ends.
  Below 256 these are the code units 9 to 13, 32 and 160.
\<close>

definition isWhiteSpace :: "char \<Rightarrow> bool" where
  "isWhiteSpace c = (of_char c \<in> {9, 10, 11, 12, 13, 32, 160 :: nat})"

definition trim :: "string \<Rightarrow> string" where
  "trim s = rev (dropWhile isWhiteSpace (rev (dropWhile isWhiteSpace s)))"

text \<open>
  Case folding of a regular expression with the \<^verbatim>\<open>i\<close> flag (no \<^verbatim>\<open>u\<close> flag): a code unit
  is compared by its upper-case form, and a code unit of 128 or more never folds onto an
  ASCII one, so against an ASCII pattern only the ASCII letters fold.
\<close>

definition toUpper :: "char \<Rightarrow> char" where
  "toUpper c = (case map_of (zip ''abcdefghijklmnopqrstuvwxyz'' ''ABCDEFGHIJKLMNOPQRSTUVWXYZ'') c of
                  Some u \<Rightarrow> u | None \<Rightarrow> c)"

definition sameIgnoringCase :: "char \<Rightarrow> char \<Rightarrow> bool" where
  "sameIgnoringCase a b = (toUpper a = toUpper b)"

text \<open>
  A literal pattern matches at the head of \<open>s\<close> when each of its code units agrees with
  the corresponding one of \<open>s\<close>.
\<close>

fun matchesAt :: "(char \<Rightarrow> char \<Rightarrow> bool) \<Rightarrow> string \<Rightarrow> string \<Rightarrow> bool" where
  "matchesAt eq [] s = True"
| "matchesAt eq (p # ps) [] = False"
| "matchesAt eq (p # ps) (c # cs) = (eq c p \<and> matchesAt eq ps cs)"

text \<open>
  \<^verbatim>\<open>s.replace(/pat/g, '')\<close> for a literal, non-empty pattern: scan from the left, drop each
  match and resume right after it.
\<close>

fun removeAll_matches :: "(char \<Rightarrow> char \<Rightarrow> bool) \<Rightarrow> string \<Rightarrow> string \<Rightarrow> string" where
  "removeAll_matches eq pat [] = []"
| "removeAll_matches eq pat (c # cs) =
     (if pat \<noteq> [] \<and> matchesAt eq pat (c # cs)
      then removeAll_matches eq pat (drop (length pat - 1) cs)
      else c # removeAll_matches eq pat cs)"

section \<open>\<^verbatim>\<open>src/utils/ocr.ts\<close>\<close>

subsection \<open>\<^verbatim>\<open>analyzeMangaPages\<close>\<close>

text \<open>
  \<^verbatim>\<open>pageResult.bubbles || []\<close>: reading a property of \<^verbatim>\<open>null\<close> throws a TypeError; on any
  other value without that property it yields \<^verbatim>\<open>undefined\<close>.
\<close>

definition pageBubbles :: "json \<Rightarrow> json promise" where
  "pageBubbles pageResult =
     (case pageResult of
        JNull \<Rightarrow> Inl ''Cannot read properties of null (reading 'bubbles')''
      | JObj kvs \<Rightarrow> Inr (orElse (map_of kvs ''bubbles'') (JArr []))
      | _ \<Rightarrow> Inr (JArr []))"

text \<open>\<^verbatim>\<open>parsed.map(f)\<close> where \<open>f\<close> may throw: the first exception aborts the map.\<close>

fun mapThrowing :: "('a \<Rightarrow> 'b promise) \<Rightarrow> 'a list \<Rightarrow> 'b list promise" where
  "mapThrowing f [] = Inr []"
| "mapThrowing f (x # xs) =
     (case f x of
        Inl e \<Rightarrow> Inl e
      | Inr y \<Rightarrow> (case mapThrowing f xs of Inl e \<Rightarrow> Inl e | Inr ys \<Rightarrow> Inr (y # ys)))"

text \<open>
  The function takes \<^verbatim>\<open>JSON.parse\<close> (a platform function: \<open>Inl\<close> is the message of the
  SyntaxError it throws) and the outcome of the awaited \<^verbatim>\<open>generateContent\<close> call as
  parameters. Its result is a promise as well, so that "never rejects" is a statement
  about the model and not a property of its type.
\<close>

definition analyzeMangaPages ::
  "(string \<Rightarrow> json promise) \<Rightarrow> string list \<Rightarrow> string option promise \<Rightarrow> json list promise" where
  "analyzeMangaPages JSON_parse base64Images response =
     (case response of
        Inl error \<Rightarrow> Inr (map (\<lambda>_. JArr []) base64Images)
      | Inr None \<Rightarrow> Inr (map (\<lambda>_. JArr []) base64Images)
      | Inr (Some txt) \<Rightarrow>
          if txt = [] then Inr (map (\<lambda>_. JArr []) base64Images)
          else (case JSON_parse txt of
                  Inl e \<Rightarrow> Inr (map (\<lambda>_. JArr []) base64Images)
                | Inr (JArr parsed) \<Rightarrow>
                    (case mapThrowing pageBubbles parsed of
                       Inl e \<Rightarrow> Inr (map (\<lambda>_. JArr []) base64Images)
                     | Inr results \<Rightarrow> Inr results)
                | Inr _ \<Rightarrow> Inr (map (\<lambda>_. JArr []) base64Images)))"

subsection \<open>\<^verbatim>\<open>performBatchedOCR\<close>\<close>

text \<open>
  \<^verbatim>\<open>text.replace(/```json/gi, '').replace(/```/g, '').trim()\<close>.
\<close>

definition cleanedResponse :: "string \<Rightarrow> string" where
  "cleanedResponse txt =
     trim (removeAll_matches (=) ''```'' (removeAll_matches sameIgnoringCase ''```json'' txt))"

text \<open>The value bound to \<^verbatim>\<open>parsed\<close> at line 137.\<close>

definition parsedResponse :: "(string \<Rightarrow> json promise) \<Rightarrow> string \<Rightarrow> json promise" where
  "parsedResponse JSON_parse txt = JSON_parse (cleanedResponse txt)"

text \<open>
  \<open>merged\<close> is the outcome of \<^verbatim>\<open>mergeImagesToBase64\<close> (canvas work of the browser, which
  rejects when an image fails to load or no 2D context is available), \<open>response\<close> the
  outcome of \<^verbatim>\<open>generateContent\<close>. The outer \<^verbatim>\<open>catch\<close> logs and rethrows.
\<close>

definition performBatchedOCR ::
  "(string \<Rightarrow> json promise) \<Rightarrow> string list \<Rightarrow> string promise \<Rightarrow> string option promise
     \<Rightarrow> json list promise" where
  "performBatchedOCR JSON_parse imageUrls merged response =
     (case merged of
        Inl err \<Rightarrow> Inl err
      | Inr mergedBase64 \<Rightarrow>
         (case response of
            Inl err \<Rightarrow> Inl err
          | Inr None \<Rightarrow> Inr (map (\<lambda>_. JStr []) imageUrls)
          | Inr (Some txt) \<Rightarrow>
              if txt = [] then Inr (map (\<lambda>_. JStr []) imageUrls)
              else (case parsedResponse JSON_parse txt of
                      Inl message \<Rightarrow>
                        Inl (''JSON parse failed: '' @ message @ ''. Raw: '' @ take 100 txt)
                    | Inr (JArr parsed) \<Rightarrow>
                        Inr (map (\<lambda>i. orElse (elemAt parsed i) (JStr [])) [0..<length imageUrls])
                    | Inr _ \<Rightarrow> Inr (map (\<lambda>_. JStr []) imageUrls))))"

section \<open>\<^verbatim>\<open>src/components/Reader.tsx\<close>: data\<close>

text \<open>
  Modelled from the spec: the type declarations of \<^verbatim>\<open>src/types.ts\<close> (\<^verbatim>\<open>SpeechBubble\<close>,
  \<^verbatim>\<open>OCRCache\<close>, \<^verbatim>\<open>MangaItem\<close>) are not part of the sources at hand. A bubble has a text
  and a bounding box of four integers on a 0 to 1000 scale, in the order ymin, xmin,
  ymax, xmax; \<^verbatim>\<open>box_2d[0]\<close> is ymin and \<^verbatim>\<open>box_2d[1]\<close> is xmin. An entry of the analysis
  cache holds the bubbles of a page and one of the status tags idle, preloaded, loading,
  complete, error.
\<close>

record bubble =
  bubble_text :: string
  box_2d :: "int \<times> int \<times> int \<times> int"

definition ymin :: "bubble \<Rightarrow> int" where
  "ymin b = fst (box_2d b)"

definition xmin :: "bubble \<Rightarrow> int" where
  "xmin b = fst (snd (box_2d b))"

datatype status = Idle | Preloaded | Loading | Complete | Error

record pageAnalysis =
  bubbles :: "bubble list"
  status :: status

type_synonym OCRCache = "nat \<rightharpoonup> pageAnalysis"

text \<open>A voice of the speech engine and an utterance handed to it.\<close>

record voice =
  voice_name :: string
  lang :: string

record utterance =
  utterance_text :: string
  utterance_voice :: "voice option"
  rate :: nat
  pitch :: nat
  volume :: nat

text \<open>The calls made on \<^verbatim>\<open>speechSynthesis\<close>, in order.\<close>

datatype synthCall = Cancel | Speak utterance

text \<open>
  The state of one reader session: the props (\<open>pages\<close> is \<^verbatim>\<open>manga.pages\<close>), the React
  state, the refs, and the two things the component reads from or writes to the speech
  engine: whether it is speaking, and the calls made on it.
  \<open>preloadedImages\<close> holds the indices that have an image object.
\<close>

record reader =
  pages :: "string list"
  currentIndex :: nat
  analysisCache :: OCRCache
  ocrTextCache :: "nat \<rightharpoonup> json"
  debugError :: "string option"
  isAnalysisEnabled :: bool
  processingQueue :: "nat set"
  pendingOCRBatches :: "nat set"
  preloadedImages :: "nat set"
  ttsEnabled :: bool
  activeBubbleIndex :: "nat option"
  lastSpokenPageIndexRef :: "nat option"
  speaking :: bool
  synthCalls :: "synthCall list"

text \<open>The state of a freshly mounted reader.\<close>

definition mount :: "string list \<Rightarrow> reader" where
  "mount ps =
     \<lparr>pages = ps, currentIndex = 0, analysisCache = Map.empty, ocrTextCache = Map.empty,
      debugError = None, isAnalysisEnabled = False, processingQueue = {},
      pendingOCRBatches = {}, preloadedImages = {}, ttsEnabled = False,
      activeBubbleIndex = None, lastSpokenPageIndexRef = None, speaking = False,
      synthCalls = []\<rparr>"

definition BATCH_SIZE :: nat where
  "BATCH_SIZE = 4"

section \<open>Bubble ordering\<close>

text \<open>The comparator passed to \<^verbatim>\<open>bubbles.sort\<close> (lines 123 to 127).\<close>

definition compareBubbles :: "bubble \<Rightarrow> bubble \<Rightarrow> int" where
  "compareBubbles a b =
     (let yDiff = ymin a - ymin b
      in if \<bar>yDiff\<bar> > 50 then yDiff else xmin b - xmin a)"

text \<open>
  \<^verbatim>\<open>Array.prototype.sort\<close> is a function of the platform and is taken as a parameter,
  called \<open>Array_sort\<close> below. ECMAScript fixes its result only when the comparator is a
  consistent comparator for the elements of the array: every element compares equal to
  itself, comparing equal is symmetric and transitive, and comparing less and comparing
  greater are transitive. Otherwise the order of the result is left to the engine.
\<close>

type_synonym 'a sorter = "('a \<Rightarrow> 'a \<Rightarrow> int) \<Rightarrow> 'a list \<Rightarrow> 'a list"

definition consistentComparator :: "('a \<Rightarrow> 'a \<Rightarrow> int) \<Rightarrow> 'a set \<Rightarrow> bool" where
  "consistentComparator cmp S \<longleftrightarrow>
     (\<forall>a\<in>S. cmp a a = 0) \<and>
     (\<forall>a\<in>S. \<forall>b\<in>S. cmp a b = 0 \<longrightarrow> cmp b a = 0) \<and>
     (\<forall>a\<in>S. \<forall>b\<in>S. \<forall>c\<in>S. cmp a b = 0 \<and> cmp b c = 0 \<longrightarrow> cmp a c = 0) \<and>
     (\<forall>a\<in>S. \<forall>b\<in>S. \<forall>c\<in>S. cmp a b < 0 \<and> cmp b c < 0 \<longrightarrow> cmp a c < 0) \<and>
     (\<forall>a\<in>S. \<forall>b\<in>S. \<forall>c\<in>S. cmp a b > 0 \<and> cmp b c > 0 \<longrightarrow> cmp a c > 0)"

text \<open>
  What every engine guarantees: the result holds the elements of the array, and when
  the comparator is consistent for them the result is sorted by it. (Engines also sort
  stably; nothing below depends on that.)
\<close>

definition conformingSort :: "'a sorter \<Rightarrow> bool" where
  "conformingSort Array_sort \<longleftrightarrow>
     (\<forall>cmp xs. mset (Array_sort cmp xs) = mset xs \<and>
        (consistentComparator cmp (set xs) \<longrightarrow>
           sorted_wrt (\<lambda>a b. cmp a b \<le> 0) (Array_sort cmp xs)))"

text \<open>\<^verbatim>\<open>bubbles.sort(...)\<close> with the comparator above.\<close>

definition sortBubbles :: "bubble sorter \<Rightarrow> bubble list \<Rightarrow> bubble list" where
  "sortBubbles Array_sort bs = Array_sort compareBubbles bs"

text \<open>
  The ordering in the words of the specification: top to bottom by ymin, and right to
  left (descending xmin) when the two ymin values differ by at most 50.
\<close>

definition inReadingOrder :: "bubble \<Rightarrow> bubble \<Rightarrow> bool" where
  "inReadingOrder a b =
     (if \<bar>ymin a - ymin b\<bar> \<le> 50 then xmin b \<le> xmin a else ymin a < ymin b)"

section \<open>Vision batches\<close>

text \<open>The page range of a vision batch (lines 38 and 39, 95 and 96).\<close>

definition startPageOf :: "nat \<Rightarrow> nat" where
  "startPageOf batchIndex = batchIndex * BATCH_SIZE"

definition endPageOf :: "reader \<Rightarrow> nat \<Rightarrow> nat" where
  "endPageOf st batchIndex = min (startPageOf batchIndex + BATCH_SIZE) (length (pages st))"

text \<open>
  The marking loop of \<^verbatim>\<open>preloadBatch\<close> (lines 54 to 62) and of \<^verbatim>\<open>analyzeBatch\<close> (lines 101 to
  107): every page of the range that is not complete gets an empty entry with the given
  status.
\<close>

definition markUnlessComplete :: "status \<Rightarrow> nat \<Rightarrow> nat \<Rightarrow> OCRCache \<Rightarrow> OCRCache" where
  "markUnlessComplete s startPage endPage prev =
     fold (\<lambda>i nextState.
             if map_option status (nextState i) \<noteq> Some Complete
             then nextState(i \<mapsto> \<lparr>bubbles = [], status = s\<rparr>)
             else nextState)
          [startPage..<endPage] prev"

text \<open>The loop of the \<^verbatim>\<open>catch\<close> block of \<^verbatim>\<open>analyzeBatch\<close> (lines 134 to 140).\<close>

definition markError :: "nat \<Rightarrow> nat \<Rightarrow> OCRCache \<Rightarrow> OCRCache" where
  "markError startPage endPage prev =
     fold (\<lambda>i nextState. nextState(i \<mapsto> \<lparr>bubbles = [], status = Error\<rparr>))
          [startPage..<endPage] prev"

text \<open>The update on success (lines 119 to 131).\<close>

definition storeResults ::
  "bubble sorter \<Rightarrow> nat \<Rightarrow> bubble list list \<Rightarrow> OCRCache \<Rightarrow> OCRCache" where
  "storeResults Array_sort startPage batchResults prev =
     fold (\<lambda>(relativeIndex, bs) nextState.
             nextState(startPage + relativeIndex \<mapsto>
                         \<lparr>bubbles = sortBubbles Array_sort bs, status = Complete\<rparr>))
          (enumerate 0 batchResults) prev"

text \<open>
  An asynchronous function runs in two steps. The first runs up to the first
  \<^verbatim>\<open>await\<close> and returns, next to the new state, the work it now waits for (\<open>None\<close> when it
  returned at once). The second takes the outcome of that work and runs the rest,
  including the \<^verbatim>\<open>finally\<close> block. Other events may run between the two.

  \<^verbatim>\<open>preloadBatch\<close> waits for the images of the pages it returns; \<open>loaded\<close> lists the indices
  whose \<^verbatim>\<open>onload\<close> fired.
\<close>

definition preloadBatch :: "nat \<Rightarrow> reader \<Rightarrow> reader \<times> nat list option" where
  "preloadBatch batchIndex st =
     (if batchIndex \<in> processingQueue st then (st, None)
      else
        let startPage = startPageOf batchIndex;
            endPage = endPageOf st batchIndex
        in if list_all (\<lambda>i. i \<in> preloadedImages st) [startPage..<endPage] then (st, None)
           else
             (st\<lparr>processingQueue := insert batchIndex (processingQueue st),
                 analysisCache :=
                   markUnlessComplete Preloaded startPage endPage (analysisCache st)\<rparr>,
              Some (filter (\<lambda>i. pages st ! i \<noteq> [] \<and> i \<notin> preloadedImages st)
                      [startPage..<endPage])))"

definition preloadBatch_settled :: "nat \<Rightarrow> nat list \<Rightarrow> reader \<Rightarrow> reader" where
  "preloadBatch_settled batchIndex loaded st =
     st\<lparr>preloadedImages :=
          preloadedImages st \<union>
            set (filter (\<lambda>i. startPageOf batchIndex \<le> i \<and> i < endPageOf st batchIndex
                               \<and> pages st ! i \<noteq> []) loaded),
        processingQueue := processingQueue st - {batchIndex}\<rparr>"

text \<open>
  \<^verbatim>\<open>analyzeBatch\<close> waits for the page images it returns to be read as base64 and then for
  \<^verbatim>\<open>analyzeMangaPages\<close>, the one remote call of a batch. The outcome is \<open>Inl\<close> when reading
  an image failed (the remote call is then never made) and \<open>Inr\<close> with the per-page
  results otherwise, taken at their declared type \<^verbatim>\<open>SpeechBubble[][]\<close>.
\<close>

definition analyzeBatch :: "nat \<Rightarrow> reader \<Rightarrow> reader \<times> nat list option" where
  "analyzeBatch batchIndex st =
     (if batchIndex \<in> processingQueue st then (st, None)
      else
        let startPage = startPageOf batchIndex;
            endPage = endPageOf st batchIndex
        in (st\<lparr>processingQueue := insert batchIndex (processingQueue st),
                analysisCache :=
                  markUnlessComplete Loading startPage endPage (analysisCache st)\<rparr>,
            Some [startPage..<endPage]))"

definition analyzeBatch_settled ::
  "bubble sorter \<Rightarrow> nat \<Rightarrow> bubble list list promise \<Rightarrow> reader \<Rightarrow> reader" where
  "analyzeBatch_settled Array_sort batchIndex outcome st =
     (let startPage = startPageOf batchIndex;
          endPage = endPageOf st batchIndex;
          st' = (case outcome of
                   Inr batchResults \<Rightarrow>
                     st\<lparr>analysisCache :=
                          storeResults Array_sort startPage batchResults (analysisCache st)\<rparr>
                 | Inl err \<Rightarrow>
                     st\<lparr>analysisCache := markError startPage endPage (analysisCache st)\<rparr>)
      in st'\<lparr>processingQueue := processingQueue st' - {batchIndex}\<rparr>)"

section \<open>Stacked OCR batches\<close>

text \<open>The silent utterance that unlocks the speech engine (lines 201 to 203).\<close>

definition unlockMsg :: utterance where
  "unlockMsg = \<lparr>utterance_text = [], utterance_voice = None, rate = 1, pitch = 1, volume = 0\<rparr>"

text \<open>The \<^verbatim>\<open>finally\<close> block of \<^verbatim>\<open>requestOCRForPage\<close> (line 240).\<close>

definition releaseOCR :: "nat \<Rightarrow> reader \<Rightarrow> reader" where
  "releaseOCR index st = st\<lparr>pendingOCRBatches := pendingOCRBatches st - {index}\<rparr>"

text \<open>\<^verbatim>\<open>!ocrTextCache[i]\<close> is false exactly for a present, truthy entry.\<close>

definition isCached :: "(nat \<rightharpoonup> json) \<Rightarrow> nat \<Rightarrow> bool" where
  "isCached cache i = (case cache i of None \<Rightarrow> False | Some v \<Rightarrow> truthy v)"

text \<open>
  \<^verbatim>\<open>requestOCRForPage\<close> is memoised on \<^verbatim>\<open>manga.pages\<close> alone, so the \<^verbatim>\<open>ocrTextCache\<close> it
  reads is the one of the render that created the callback; that value is the
  parameter \<open>seen\<close>. The whole body is inside \<^verbatim>\<open>try ... finally\<close>, so every \<^verbatim>\<open>return\<close> runs
  the \<^verbatim>\<open>finally\<close> block. The call of \<^verbatim>\<open>performBatchedOCR\<close> is made before the function
  first waits, with the page addresses returned here.
\<close>

definition requestOCRForPage ::
  "(nat \<rightharpoonup> json) \<Rightarrow> nat \<Rightarrow> reader \<Rightarrow> reader \<times> string list option" where
  "requestOCRForPage seen index st =
     (let st1 = st\<lparr>debugError := None\<rparr>;
          batchStart = index;
          batchEnd = min (batchStart + 3) (length (pages st));
          allCached = list_all (isCached seen) [batchStart..<batchEnd]
      in if allCached then (releaseOCR index st1, None)
         else
           let st2 = st1\<lparr>synthCalls := synthCalls st1 @ [Speak unlockMsg]\<rparr>
           in if batchStart \<in> pendingOCRBatches st2 then (releaseOCR index st2, None)
              else
                let st3 = st2\<lparr>pendingOCRBatches := insert batchStart (pendingOCRBatches st2)\<rparr>;
                    urls = take 3 (drop batchStart (pages st))
                in if urls = [] then (releaseOCR index st3, None)
                   else (st3, Some urls))"

text \<open>The cache update of lines 226 to 234.\<close>

definition storeTexts :: "nat \<Rightarrow> json list \<Rightarrow> (nat \<rightharpoonup> json) \<Rightarrow> (nat \<rightharpoonup> json)" where
  "storeTexts batchStart texts prev =
     fold (\<lambda>(i, t) next. next(batchStart + i \<mapsto> orElse (Some t) (JStr [])))
          (enumerate 0 texts) prev"

text \<open>The rest of the function once \<^verbatim>\<open>performBatchedOCR\<close> has settled with \<open>outcome\<close>.\<close>

definition requestOCRForPage_settled :: "nat \<Rightarrow> json list promise \<Rightarrow> reader \<Rightarrow> reader" where
  "requestOCRForPage_settled index outcome st =
     releaseOCR index
       (case outcome of
          Inr texts \<Rightarrow> st\<lparr>ocrTextCache := storeTexts index texts (ocrTextCache st)\<rparr>
        | Inl errorMsg \<Rightarrow> st\<lparr>debugError := Some errorMsg\<rparr>)"

section \<open>Narration\<close>

definition startsWith :: "string \<Rightarrow> string \<Rightarrow> bool" where
  "startsWith s p = (take (length p) s = p)"

definition includesString :: "string \<Rightarrow> string \<Rightarrow> bool" where
  "includesString s sub = list_ex (\<lambda>i. startsWith (drop i s) sub) [0..<Suc (length s)]"

text \<open>
  \<^verbatim>\<open>voices.find(...) || voices.find(...)\<close> (lines 292 and 332). \<open>voices\<close> is the list in hand
  when the utterances are built, that is after the bounded wait for an empty list.
\<close>

definition pickVoice :: "voice list \<Rightarrow> voice option" where
  "pickVoice voices =
     (case find (\<lambda>v. includesString (voice_name v) ''Google US English'') voices of
        Some v \<Rightarrow> Some v
      | None \<Rightarrow> find (\<lambda>v. startsWith (lang v) ''en'') voices)"

definition newUtterance :: "voice list \<Rightarrow> string \<Rightarrow> utterance" where
  "newUtterance voices txt =
     \<lparr>utterance_text = txt, utterance_voice = pickVoice voices, rate = 1, pitch = 1, volume = 1\<rparr>"

text \<open>
  The common opening of both narration paths (lines 276 to 281 and 314 to 319): cancel
  what another page was saying, remember the page, cancel again.
\<close>

definition startNarration :: "nat \<Rightarrow> reader \<Rightarrow> reader" where
  "startNarration pageIndex st =
     (let st1 = (if lastSpokenPageIndexRef st \<noteq> Some pageIndex
                 then st\<lparr>synthCalls := synthCalls st @ [Cancel], activeBubbleIndex := None\<rparr>
                 else st)
      in st1\<lparr>lastSpokenPageIndexRef := Some pageIndex,
             synthCalls := synthCalls st1 @ [Cancel]\<rparr>)"

text \<open>The text path (lines 275 to 299), entered with a non-blank cached string.\<close>

definition speakText :: "voice list \<Rightarrow> nat \<Rightarrow> string \<Rightarrow> reader \<Rightarrow> reader" where
  "speakText voices pageIndex cachedText st =
     (if lastSpokenPageIndexRef st = Some pageIndex \<and> speaking st then st
      else
        let st1 = startNarration pageIndex st
        in st1\<lparr>synthCalls := synthCalls st1 @ [Speak (newUtterance voices cachedText)]\<rparr>)"

text \<open>The bubble path (lines 308 to 344).\<close>

definition speakBubbles :: "voice list \<Rightarrow> nat \<Rightarrow> reader \<Rightarrow> reader" where
  "speakBubbles voices pageIndex st =
     (case analysisCache st pageIndex of
        None \<Rightarrow> st
      | Some currentPageData \<Rightarrow>
          if status currentPageData \<noteq> Complete then st
          else if bubbles currentPageData = [] then st
          else if lastSpokenPageIndexRef st = Some pageIndex \<and> speaking st then st
          else
            let st1 = startNarration pageIndex st
            in st1\<lparr>synthCalls :=
                     synthCalls st1 @
                       map (\<lambda>b. Speak (newUtterance voices (bubble_text b)))
                           (bubbles currentPageData)\<rparr>)"

text \<open>
  \<^verbatim>\<open>speakCurrentPage\<close>. A cached value that is truthy but not a string has no \<^verbatim>\<open>trim\<close>
  method: the call throws a TypeError, which the first \<^verbatim>\<open>catch\<close> reports before it
  returns.
\<close>

definition speakCurrentPage :: "voice list \<Rightarrow> reader \<Rightarrow> reader" where
  "speakCurrentPage voices st =
     (if \<not> ttsEnabled st \<or> \<not> isAnalysisEnabled st then st
      else
        let pageIndex = currentIndex st
        in case ocrTextCache st pageIndex of
             None \<Rightarrow> speakBubbles voices pageIndex st
           | Some (JStr cachedText) \<Rightarrow>
               if cachedText \<noteq> [] \<and> length (trim cachedText) > 0
               then speakText voices pageIndex cachedText st
               else speakBubbles voices pageIndex st
           | Some v \<Rightarrow>
               if truthy v
               then st\<lparr>debugError :=
                         Some (''TTS OCR text error: '' @ ''cachedText.trim is not a function'')\<rparr>
               else speakBubbles voices pageIndex st)"

text \<open>The utterances among the calls a step added to the engine.\<close>

definition utterancesSince :: "reader \<Rightarrow> reader \<Rightarrow> utterance list" where
  "utterancesSince before after =
     concat (map (\<lambda>c. case c of Speak u \<Rightarrow> [u] | Cancel \<Rightarrow> [])
                 (drop (length (synthCalls before)) (synthCalls after)))"

section \<open>Inputs of the worked examples\<close>

text \<open>
  In a worked example \<^verbatim>\<open>JSON.parse\<close> is given by its value on the texts the example feeds
  it; any other text is a syntax error.
\<close>

definition parseTable :: "(string \<times> json) list \<Rightarrow> string \<Rightarrow> json promise" where
  "parseTable table s = (case map_of table s of Some v \<Rightarrow> Inr v | None \<Rightarrow> Inl ''Unexpected token'')"

text \<open>A string literal of JSON: the text between double quotes.\<close>

definition quoted :: "string \<Rightarrow> string" where
  "quoted s = CHR 0x22 # s @ [CHR 0x22]"

text \<open>A response wrapped in a markdown fence: \<^verbatim>\<open>"```json\n" + t + "\n```"\<close>.\<close>

definition fenced :: "string \<Rightarrow> string" where
  "fenced t = ''```json'' @ CHR 0x0A # t @ CHR 0x0A # ''```''"

text \<open>
  In a worked example the engine's sort is an insertion sort: an element goes in front
  of the first element it does not compare greater than. It meets the guarantee above
  (\<open>conformingSort_insertionSort\<close>), and the examples apply it only to arrays for which
  the comparator is consistent, where the sorted result is the same for every engine.
\<close>

fun insertInto :: "('a \<Rightarrow> 'a \<Rightarrow> int) \<Rightarrow> 'a \<Rightarrow> 'a list \<Rightarrow> 'a list" where
  "insertInto cmp x [] = [x]"
| "insertInto cmp x (y # ys) =
     (if cmp x y \<le> 0 then x # y # ys else y # insertInto cmp x ys)"

fun insertionSort :: "'a sorter" where
  "insertionSort cmp [] = []"
| "insertionSort cmp (x # xs) = insertInto cmp x (insertionSort cmp xs)"

text \<open>The three boxes of the ordering example: ymin 10, 15, 500 and xmin 300, 100, 50.\<close>

definition box10 :: bubble where
  "box10 = \<lparr>bubble_text = ''first'', box_2d = (10, 300, 60, 400)\<rparr>"

definition box15 :: bubble where
  "box15 = \<lparr>bubble_text = ''second'', box_2d = (15, 100, 65, 200)\<rparr>"

definition box500 :: bubble where
  "box500 = \<lparr>bubble_text = ''third'', box_2d = (500, 50, 550, 150)\<rparr>"

text \<open>
  Three bubbles stepping down the page less than 50 apart, each further left than the
  one below it: ymin 0, 40, 80 and xmin 100, 200, 300.
\<close>

definition stepA :: bubble where
  "stepA = \<lparr>bubble_text = ''a'', box_2d = (0, 100, 30, 200)\<rparr>"

definition stepB :: bubble where
  "stepB = \<lparr>bubble_text = ''b'', box_2d = (40, 200, 70, 300)\<rparr>"

definition stepC :: bubble where
  "stepC = \<lparr>bubble_text = ''c'', box_2d = (80, 300, 110, 400)\<rparr>"

text \<open>A reader on a manga of one page.\<close>

definition onePage :: reader where
  "onePage = mount [''page0'']"

text \<open>Readers on a manga of three pages and of two pages.\<close>

definition threePages :: reader where
  "threePages = mount [''page0'', ''page1'', ''page2'']"

definition twoPages :: reader where
  "twoPages = mount [''page0'', ''page1'']"

text \<open>
  Three requests for the OCR batch that starts at page 0, made one after the other
  before \<^verbatim>\<open>performBatchedOCR\<close> settles.
\<close>

definition firstClick :: "reader \<times> string list option" where
  "firstClick = requestOCRForPage Map.empty 0 threePages"

definition secondClick :: "reader \<times> string list option" where
  "secondClick = requestOCRForPage Map.empty 0 (fst firstClick)"

definition thirdClick :: "reader \<times> string list option" where
  "thirdClick = requestOCRForPage Map.empty 0 (fst secondClick)"

text \<open>The one-page reader after a vision batch that returned one bubble for page 0.\<close>

definition completedPage :: reader where
  "completedPage = analyzeBatch_settled insertionSort 0 (Inr [[box10]]) (fst (analyzeBatch 0 onePage))"

text \<open>A bubble-detection response for one page: \<^verbatim>\<open>[{"bubbles":[]}]\<close>.\<close>

definition onePageResponse :: string where
  "onePageResponse = ''[{'' @ quoted ''bubbles'' @ '':[]}]''"

text \<open>A stacked-OCR response for three pages without dialogue: \<^verbatim>\<open>["","",""]\<close>.\<close>

definition noDialogueResponse :: string where
  "noDialogueResponse = ''['' @ quoted [] @ '','' @ quoted [] @ '','' @ quoted [] @ '']''"

text \<open>
  The stacked-OCR answer \<^verbatim>\<open>["Hello","","World"]\<close>, and the reader after the first request
  of the three-page manga has settled with it.
\<close>

definition helloResponse :: string where
  "helloResponse = ''['' @ quoted ''Hello'' @ '','' @ quoted [] @ '','' @ quoted ''World'' @ '']''"

definition helloParse :: "string \<Rightarrow> json promise" where
  "helloParse = parseTable [(helloResponse, JArr [JStr ''Hello'', JStr [], JStr ''World''])]"

definition helloCached :: reader where
  "helloCached =
     requestOCRForPage_settled 0
       (performBatchedOCR helloParse [''page0'', ''page1'', ''page2'']
          (Inr ''merged'') (Inr (Some helloResponse)))
       (fst firstClick)"

text \<open>
  A reader with narration and analysis switched on, whose page 0 has a complete analysis
  with one bubble and a cached text that is the empty string.
\<close>

definition emptyTextPage :: reader where
  "emptyTextPage =
     completedPage\<lparr>ttsEnabled := True, isAnalysisEnabled := True,
                   ocrTextCache := (ocrTextCache completedPage)(0 \<mapsto> JStr [])\<rparr>"

section \<open>Properties of the response cleaning\<close>

lemma matchesAt_length: "matchesAt eq pat s \<Longrightarrow> length pat \<le> length s"
  by (induction eq pat s rule: matchesAt.induct) auto

text \<open>
  A code unit that agrees with no code unit of the pattern is a barrier: no match
  reaches across it.
\<close>

lemma matchesAt_append_barrier:
  assumes "\<forall>p \<in> set pat. \<not> eq c p"
  shows "matchesAt eq pat (s @ c # u) = matchesAt eq pat s"
  using assms
  by (induction eq pat s rule: matchesAt.induct) simp_all

lemma removeAll_matches_barrier:
  assumes "\<forall>p \<in> set pat. \<not> eq c p"
  shows "removeAll_matches eq pat (s @ c # u)
           = removeAll_matches eq pat s @ c # removeAll_matches eq pat u"
  using assms
proof (induction eq pat s rule: removeAll_matches.induct)
  case (1 eq pat)
  then show ?case by (cases pat) auto
next
  case (2 eq pat x xs)
  show ?case
  proof (cases "pat \<noteq> [] \<and> matchesAt eq pat (x # xs)")
    case True
    then have len: "length pat - 1 \<le> length xs"
      using matchesAt_length[of eq pat "x # xs"] by simp
    have m: "matchesAt eq pat ((x # xs) @ c # u)"
      using True "2.prems" matchesAt_append_barrier[of pat eq c "x # xs" u] by simp
    have "removeAll_matches eq pat ((x # xs) @ c # u)
            = removeAll_matches eq pat (drop (length pat - 1) (xs @ c # u))"
      using True m by simp
    also have "drop (length pat - 1) (xs @ c # u) = drop (length pat - 1) xs @ c # u"
      using len by simp
    also have "removeAll_matches eq pat (drop (length pat - 1) xs @ c # u)
            = removeAll_matches eq pat (drop (length pat - 1) xs)
                @ c # removeAll_matches eq pat u"
      using "2.IH"(1)[OF True "2.prems"] .
    finally show ?thesis using True by simp
  next
    case False
    then have m: "\<not> (pat \<noteq> [] \<and> matchesAt eq pat ((x # xs) @ c # u))"
      using "2.prems" matchesAt_append_barrier[of pat eq c "x # xs" u] by simp
    have "removeAll_matches eq pat ((x # xs) @ c # u)
            = x # removeAll_matches eq pat (xs @ c # u)"
      using m by auto
    moreover have "removeAll_matches eq pat (x # xs) = x # removeAll_matches eq pat xs"
      using False by auto
    ultimately show ?thesis using "2.IH"(2)[OF False "2.prems"] by simp
  qed
qed

lemma trim_snoc: "isWhiteSpace c \<Longrightarrow> trim (s @ [c]) = trim s"
proof (cases "\<forall>x \<in> set s. isWhiteSpace x")
  case True
  assume c: "isWhiteSpace c"
  have a: "dropWhile isWhiteSpace s = []"
    using True by (induction s) auto
  have b: "dropWhile isWhiteSpace (s @ [c]) = []"
    using True c by (induction s) auto
  show ?thesis unfolding trim_def a b by simp
next
  case False
  assume c: "isWhiteSpace c"
  from False have "dropWhile isWhiteSpace (s @ [c]) = dropWhile isWhiteSpace s @ [c]"
    by (auto simp: dropWhile_append)
  then show ?thesis using c by (simp add: trim_def)
qed

lemma trim_Cons: "isWhiteSpace c \<Longrightarrow> trim (c # s) = trim s"
  by (simp add: trim_def)

lemma newline_isWhiteSpace: "isWhiteSpace (CHR 0x0A)"
  by (simp add: isWhiteSpace_def)

lemma strip_json_fence:
  "removeAll_matches sameIgnoringCase ''```json'' (''```json'' @ CHR 0x0A # t @ CHR 0x0A # ''```'')
     = CHR 0x0A # removeAll_matches sameIgnoringCase ''```json'' t @ CHR 0x0A # ''```''"
  by (simp add: sameIgnoringCase_def toUpper_def removeAll_matches_barrier)

lemma strip_backticks:
  "removeAll_matches (=) ''```'' (CHR 0x0A # u @ CHR 0x0A # ''```'')
     = CHR 0x0A # removeAll_matches (=) ''```'' u @ [CHR 0x0A]"
  by (simp add: removeAll_matches_barrier)

lemma cleanedResponse_fenced: "cleanedResponse (fenced t) = cleanedResponse t"
  unfolding cleanedResponse_def fenced_def
  by (simp only: strip_json_fence strip_backticks
        trim_Cons[OF newline_isWhiteSpace] trim_snoc[OF newline_isWhiteSpace])

text \<open>
  C9. For every text \<open>t\<close>, the fenced response \<^verbatim>\<open>"```json\n" + t + "\n```"\<close> and the bare
  response \<open>t\<close> are cleaned to the same string, so \<^verbatim>\<open>JSON.parse\<close> receives the same argument
  and \<^verbatim>\<open>parsed\<close> is the same value; and when that parse succeeds on a non-empty \<open>t\<close> (as it
  does for a JSON array text), \<^verbatim>\<open>performBatchedOCR\<close> returns the same result for both.
\<close>

theorem fenced_response_parses_identically:
  "parsedResponse JSON_parse (fenced t) = parsedResponse JSON_parse t \<and>
   (t \<noteq> [] \<and> (\<exists>v. parsedResponse JSON_parse t = Inr v) \<longrightarrow>
      performBatchedOCR JSON_parse imageUrls merged (Inr (Some (fenced t)))
        = performBatchedOCR JSON_parse imageUrls merged (Inr (Some t)))"
proof -
  have same: "parsedResponse JSON_parse (fenced t) = parsedResponse JSON_parse t"
    by (simp add: parsedResponse_def cleanedResponse_fenced)
  have ne: "fenced t \<noteq> []"
    by (simp add: fenced_def)
  show ?thesis
    using same ne by (auto simp: performBatchedOCR_def split: sum.splits)
qed

theorem fenced_response_parses_identically_witness:
  "parsedResponse (parseTable [(''[1,2]'', JArr [JNum 1, JNum 2])]) (fenced ''[1,2]'')
     = Inr (JArr [JNum 1, JNum 2]) \<and>
   performBatchedOCR (parseTable [(''[1,2]'', JArr [JNum 1, JNum 2])]) [''p0'', ''p1'']
       (Inr ''merged'') (Inr (Some (fenced ''[1,2]'')))
     = Inr [JNum 1, JNum 2]"
proof -
  let ?P = "parseTable [(''[1,2]'', JArr [JNum 1, JNum 2])]"
  have clean: "cleanedResponse ''[1,2]'' = ''[1,2]''"
    by (simp add: cleanedResponse_def trim_def isWhiteSpace_def)
  have bare: "parsedResponse ?P ''[1,2]'' = Inr (JArr [JNum 1, JNum 2])"
    by (simp add: parsedResponse_def clean parseTable_def)
  have run: "performBatchedOCR ?P [''p0'', ''p1''] (Inr ''merged'') (Inr (Some ''[1,2]''))
               = Inr [JNum 1, JNum 2]"
    by (simp add: performBatchedOCR_def bare orElse_def elemAt_def upt_rec)
  show ?thesis
    using fenced_response_parses_identically
            [of ?P "''[1,2]''" "[''p0'', ''p1'']" "Inr ''merged''"]
          bare run
    by simp
qed

section \<open>Properties of the bubble ordering\<close>

text \<open>The reading order of the specification is the comparator's "not greater".\<close>

lemma inReadingOrder_iff: "inReadingOrder a b \<longleftrightarrow> compareBubbles a b \<le> 0"
  by (auto simp: inReadingOrder_def compareBubbles_def Let_def)

text \<open>Consequences of consistency: the comparator is total and transitive on the set.\<close>

lemma consistent_greater_less:
  assumes "consistentComparator cmp S" and "a \<in> S" and "b \<in> S" and "cmp a b > 0"
  shows "cmp b a < 0"
proof (rule ccontr)
  assume "\<not> cmp b a < 0"
  then consider "cmp b a = 0" | "cmp b a > 0" by linarith
  then show False
  proof cases
    case 1
    then have "cmp a b = 0"
      using assms(1-3) unfolding consistentComparator_def by blast
    with assms(4) show False by simp
  next
    case 2
    with assms(4) have "cmp a a > 0"
      using assms(1-3) unfolding consistentComparator_def by blast
    moreover have "cmp a a = 0"
      using assms(1,2) unfolding consistentComparator_def by blast
    ultimately show False by simp
  qed
qed

lemma consistent_less_greater:
  assumes "consistentComparator cmp S" and "a \<in> S" and "b \<in> S" and "cmp a b < 0"
  shows "cmp b a > 0"
proof (rule ccontr)
  assume "\<not> cmp b a > 0"
  then consider "cmp b a = 0" | "cmp b a < 0" by linarith
  then show False
  proof cases
    case 1
    then have "cmp a b = 0"
      using assms(1-3) unfolding consistentComparator_def by blast
    with assms(4) show False by simp
  next
    case 2
    with assms(4) have "cmp a a < 0"
      using assms(1-3) unfolding consistentComparator_def by blast
    moreover have "cmp a a = 0"
      using assms(1,2) unfolding consistentComparator_def by blast
    ultimately show False by simp
  qed
qed

lemma consistent_total:
  assumes "consistentComparator cmp S" and "a \<in> S" and "b \<in> S" and "\<not> cmp a b \<le> 0"
  shows "cmp b a \<le> 0"
  using consistent_greater_less[OF assms(1-3)] assms(4) by simp

lemma consistent_trans:
  assumes c: "consistentComparator cmp S" and a: "a \<in> S" and b: "b \<in> S" and d: "d \<in> S"
    and ab: "cmp a b \<le> 0" and bd: "cmp b d \<le> 0"
  shows "cmp a d \<le> 0"
proof (rule ccontr)
  assume "\<not> cmp a d \<le> 0"
  then have ad: "cmp a d > 0" by simp
  then have da: "cmp d a < 0" by (rule consistent_greater_less[OF c a d])
  consider "cmp a b < 0" "cmp b d < 0" | "cmp a b = 0" "cmp b d = 0"
    | "cmp a b < 0" "cmp b d = 0" | "cmp a b = 0" "cmp b d < 0"
    using ab bd by linarith
  then show False
  proof cases
    case 1
    then have "cmp a d < 0"
      using c a b d unfolding consistentComparator_def by blast
    with ad show False by simp
  next
    case 2
    then have "cmp a d = 0"
      using c a b d unfolding consistentComparator_def by blast
    with ad show False by simp
  next
    case 3
    from da 3(1) have "cmp d b < 0"
      using c a b d unfolding consistentComparator_def by blast
    moreover from 3(2) have "cmp d b = 0"
      using c b d unfolding consistentComparator_def by blast
    ultimately show False by simp
  next
    case 4
    from 4(2) da have "cmp b a < 0"
      using c a b d unfolding consistentComparator_def by blast
    moreover from 4(1) have "cmp b a = 0"
      using c a b unfolding consistentComparator_def by blast
    ultimately show False by simp
  qed
qed

text \<open>The insertion sort of the worked examples meets the guarantee of the engines.\<close>

lemma mset_insertInto: "mset (insertInto cmp x ys) = add_mset x (mset ys)"
  by (induction ys) auto

lemma mset_insertionSort: "mset (insertionSort cmp xs) = mset xs"
  by (induction xs) (auto simp: mset_insertInto)

lemma set_insertInto: "set (insertInto cmp x ys) = insert x (set ys)"
  by (induction ys) auto

lemma set_insertionSort: "set (insertionSort cmp xs) = set xs"
  by (rule mset_eq_setD) (rule mset_insertionSort)

lemma sorted_wrt_insertInto:
  assumes total: "\<And>a b. a \<in> insert x (set ys) \<Longrightarrow> b \<in> insert x (set ys) \<Longrightarrow>
                    \<not> cmp a b \<le> 0 \<Longrightarrow> cmp b a \<le> 0"
    and trans: "\<And>a b c. a \<in> insert x (set ys) \<Longrightarrow> b \<in> insert x (set ys) \<Longrightarrow>
                  c \<in> insert x (set ys) \<Longrightarrow> cmp a b \<le> 0 \<Longrightarrow> cmp b c \<le> 0 \<Longrightarrow> cmp a c \<le> 0"
    and "sorted_wrt (\<lambda>a b. cmp a b \<le> 0) ys"
  shows "sorted_wrt (\<lambda>a b. cmp a b \<le> (0::int)) (insertInto cmp x ys)"
  using assms
proof (induction ys)
  case Nil
  show ?case by simp
next
  case (Cons y ys)
  note total = Cons.prems(1) and trans = Cons.prems(2) and sorted = Cons.prems(3)
  from sorted have tail: "sorted_wrt (\<lambda>a b. cmp a b \<le> 0) ys"
    and head: "\<forall>z \<in> set ys. cmp y z \<le> 0"
    by simp_all
  show ?case
  proof (cases "cmp x y \<le> 0")
    case True
    have "\<forall>z \<in> set ys. cmp x z \<le> 0"
    proof
      fix z assume z: "z \<in> set ys"
      with head have yz: "cmp y z \<le> 0" by blast
      show "cmp x z \<le> 0"
        by (rule trans[of x y z, OF _ _ _ True yz]) (use z in simp_all)
    qed
    with True head tail show ?thesis by simp
  next
    case False
    have yx: "cmp y x \<le> 0"
      by (rule total[of x y, OF _ _ False]) simp_all
    have ih: "sorted_wrt (\<lambda>a b. cmp a b \<le> 0) (insertInto cmp x ys)"
    proof (rule Cons.IH)
      fix a b
      assume "a \<in> insert x (set ys)" "b \<in> insert x (set ys)" "\<not> cmp a b \<le> 0"
      then show "cmp b a \<le> 0"
        by (intro total) auto
    next
      fix a b c
      assume m: "a \<in> insert x (set ys)" "b \<in> insert x (set ys)" "c \<in> insert x (set ys)"
        and le: "cmp a b \<le> 0" "cmp b c \<le> 0"
      show "cmp a c \<le> 0"
        by (rule trans[of a b c, OF _ _ _ le]) (use m in auto)
    next
      show "sorted_wrt (\<lambda>a b. cmp a b \<le> 0) ys" by (rule tail)
    qed
    have "\<forall>z \<in> set (insertInto cmp x ys). cmp y z \<le> 0"
      using yx head by (simp add: set_insertInto)
    with False ih show ?thesis by simp
  qed
qed

lemma sorted_wrt_insertionSort:
  assumes "consistentComparator cmp (set xs)"
  shows "sorted_wrt (\<lambda>a b. cmp a b \<le> (0::int)) (insertionSort cmp xs)"
proof -
  have "set ys \<subseteq> set xs \<Longrightarrow> sorted_wrt (\<lambda>a b. cmp a b \<le> 0) (insertionSort cmp ys)" for ys
  proof (induction ys)
    case Nil
    then show ?case by simp
  next
    case (Cons y ys)
    have sub: "insert y (set (insertionSort cmp ys)) \<subseteq> set xs"
      using Cons.prems by (simp add: set_insertionSort)
    have "sorted_wrt (\<lambda>a b. cmp a b \<le> 0) (insertInto cmp y (insertionSort cmp ys))"
    proof (rule sorted_wrt_insertInto)
      fix a b
      assume "a \<in> insert y (set (insertionSort cmp ys))"
        "b \<in> insert y (set (insertionSort cmp ys))" "\<not> cmp a b \<le> 0"
      then show "cmp b a \<le> 0"
        using consistent_total[OF assms, of a b] sub by blast
    next
      fix a b c
      assume "a \<in> insert y (set (insertionSort cmp ys))"
        "b \<in> insert y (set (insertionSort cmp ys))"
        "c \<in> insert y (set (insertionSort cmp ys))" "cmp a b \<le> 0" "cmp b c \<le> 0"
      then show "cmp a c \<le> 0"
        using consistent_trans[OF assms, of a b c] sub by blast
    next
      show "sorted_wrt (\<lambda>a b. cmp a b \<le> 0) (insertionSort cmp ys)"
        using Cons by simp
    qed
    then show ?case by simp
  qed
  then show ?thesis by simp
qed

lemma conformingSort_insertionSort: "conformingSort insertionSort"
  by (simp add: conformingSort_def mset_insertionSort sorted_wrt_insertionSort)

text \<open>The comparator on the boxes of the example, and on the stepping bubbles.\<close>

lemma example_boxes_consistent:
  "consistentComparator compareBubbles (set [box10, box15, box500])"
  by (simp add: consistentComparator_def compareBubbles_def ymin_def xmin_def
        box10_def box15_def box500_def)

lemma example_boxes_strict:
  "\<not> inReadingOrder box15 box10" "\<not> inReadingOrder box500 box10"
  "\<not> inReadingOrder box500 box15"
  "distinct [box10, box15, box500]"
  by (simp_all add: inReadingOrder_def ymin_def xmin_def box10_def box15_def box500_def)

text \<open>
  Three distinct elements that are strictly ordered have one sorted arrangement only.
\<close>

lemma sorted_three_unique:
  assumes perm: "mset out = mset [x, y, z]" and dist: "distinct [x, y, z]"
    and sorted: "sorted_wrt P out"
    and strict: "\<not> P y x" "\<not> P z x" "\<not> P z y"
  shows "out = [x, y, z]"
proof -
  from perm have "length out = length [x, y, z]"
    by (rule mset_eq_length)
  then obtain p q r where out: "out = [p, q, r]"
    by (auto simp: length_Suc_conv)
  have "set out = set [x, y, z]"
    using perm by (rule mset_eq_setD)
  with out have mem: "x = p \<or> x = q \<or> x = r" "y = p \<or> y = q \<or> y = r"
    "z = p \<or> z = q \<or> z = r"
    by auto
  from dist have ne: "x \<noteq> y" "x \<noteq> z" "y \<noteq> z" by simp_all
  from sorted out have P: "P p q" "P p r" "P q r" by simp_all
  have "p = x"
    using mem ne P strict by blast
  moreover have "q = y"
    using mem ne P strict by blast
  moreover have "r = z"
    using mem ne P strict by blast
  ultimately show ?thesis using out by simp
qed

theorem bubble_ordering_when_consistent:
  assumes "conformingSort Array_sort"
  shows "(\<forall>a b. compareBubbles a b \<le> 0 \<longleftrightarrow>
            (if \<bar>ymin a - ymin b\<bar> \<le> 50 then xmin b \<le> xmin a else ymin a < ymin b)) \<and>
         mset (sortBubbles Array_sort bs) = mset bs \<and>
         (consistentComparator compareBubbles (set bs) \<longrightarrow>
            sorted_wrt inReadingOrder (sortBubbles Array_sort bs)) \<and>
         (\<forall>input. mset input = mset [box10, box15, box500] \<longrightarrow>
            sortBubbles Array_sort input = [box10, box15, box500])"
proof -
  have cmp: "\<forall>a b. compareBubbles a b \<le> 0 \<longleftrightarrow>
               (if \<bar>ymin a - ymin b\<bar> \<le> 50 then xmin b \<le> xmin a else ymin a < ymin b)"
    using inReadingOrder_iff by (simp add: inReadingOrder_def)
  have perm: "mset (sortBubbles Array_sort xs) = mset xs" for xs
    using assms by (simp add: conformingSort_def sortBubbles_def)
  have sorted: "sorted_wrt inReadingOrder (sortBubbles Array_sort xs)"
    if "consistentComparator compareBubbles (set xs)" for xs
  proof -
    have "sorted_wrt (\<lambda>a b. compareBubbles a b \<le> 0) (Array_sort compareBubbles xs)"
      using assms that unfolding conformingSort_def by blast
    then show ?thesis
      by (simp add: sortBubbles_def inReadingOrder_iff[abs_def])
  qed
  have example: "sortBubbles Array_sort input = [box10, box15, box500]"
    if input: "mset input = mset [box10, box15, box500]" for input
  proof -
    have "set input = set [box10, box15, box500]"
      using input by (rule mset_eq_setD)
    then have "consistentComparator compareBubbles (set input)"
      using example_boxes_consistent by simp
    then have s: "sorted_wrt inReadingOrder (sortBubbles Array_sort input)"
      by (rule sorted)
    have p: "mset (sortBubbles Array_sort input) = mset [box10, box15, box500]"
      using perm[of input] input by simp
    show ?thesis
      by (rule sorted_three_unique[OF p example_boxes_strict(4) s example_boxes_strict(1-3)])
  qed
  show ?thesis using cmp perm sorted example by blast
qed

theorem bubble_ordering_when_consistent_witness:
  "conformingSort insertionSort \<and>
   consistentComparator compareBubbles (set [box500, box15, box10]) \<and>
   sortBubbles insertionSort [box500, box15, box10] = [box10, box15, box500] \<and>
   sorted_wrt inReadingOrder (sortBubbles insertionSort [box500, box15, box10]) \<and>
   compareBubbles box10 box15 \<le> 0 \<and>
   mset (sortBubbles insertionSort [box500, box15, box10]) = mset [box500, box15, box10]"
proof -
  have c: "consistentComparator compareBubbles (set [box500, box15, box10])"
    using example_boxes_consistent by (simp add: insert_commute)
  have m: "mset [box500, box15, box10] = mset [box10, box15, box500]"
    by simp
  have o: "compareBubbles box10 box15 \<le> 0"
    by (simp add: compareBubbles_def ymin_def xmin_def box10_def box15_def)
  note main = bubble_ordering_when_consistent
                [OF conformingSort_insertionSort, of "[box500, box15, box10]"]
  from main have "sortBubbles insertionSort [box500, box15, box10] = [box10, box15, box500]"
    using m by blast
  moreover from main c
  have "sorted_wrt inReadingOrder (sortBubbles insertionSort [box500, box15, box10])"
    by blast
  moreover from main
  have "mset (sortBubbles insertionSort [box500, box15, box10]) = mset [box500, box15, box10]"
    by blast
  ultimately show ?thesis using conformingSort_insertionSort c o by simp
qed

text \<open>
  C8 as stated fails: for three bubbles stepping down the page with ymin 0, 40, 80 and
  xmin 100, 200, 300 the comparator runs in a circle (b before a, c before b, a before
  c), so none of the six arrangements of the three is top to bottom with the
  right-to-left tie-break, whatever the sort returns.
\<close>

theorem stepping_bubbles_have_no_reading_order:
  "compareBubbles stepB stepA < 0 \<and> compareBubbles stepC stepB < 0 \<and>
   compareBubbles stepA stepC < 0 \<and>
   \<not> consistentComparator compareBubbles (set [stepA, stepB, stepC]) \<and>
   \<not> sorted_wrt inReadingOrder [stepA, stepB, stepC] \<and>
   \<not> sorted_wrt inReadingOrder [stepA, stepC, stepB] \<and>
   \<not> sorted_wrt inReadingOrder [stepB, stepA, stepC] \<and>
   \<not> sorted_wrt inReadingOrder [stepB, stepC, stepA] \<and>
   \<not> sorted_wrt inReadingOrder [stepC, stepA, stepB] \<and>
   \<not> sorted_wrt inReadingOrder [stepC, stepB, stepA]"
proof -
  have circle: "compareBubbles stepB stepA < 0" "compareBubbles stepC stepB < 0"
    "compareBubbles stepA stepC < 0"
    by (simp_all add: compareBubbles_def ymin_def xmin_def stepA_def stepB_def stepC_def)
  have "\<not> consistentComparator compareBubbles (set [stepA, stepB, stepC])"
  proof
    assume c: "consistentComparator compareBubbles (set [stepA, stepB, stepC])"
    have "compareBubbles stepC stepA < 0"
      using c circle(1,2) unfolding consistentComparator_def by simp
    moreover have "compareBubbles stepC stepA > 0"
      by (rule consistent_less_greater[OF c _ _ circle(3)]) simp_all
    ultimately show False by simp
  qed
  moreover have
    "\<not> sorted_wrt inReadingOrder [stepA, stepB, stepC]"
    "\<not> sorted_wrt inReadingOrder [stepA, stepC, stepB]"
    "\<not> sorted_wrt inReadingOrder [stepB, stepA, stepC]"
    "\<not> sorted_wrt inReadingOrder [stepB, stepC, stepA]"
    "\<not> sorted_wrt inReadingOrder [stepC, stepA, stepB]"
    "\<not> sorted_wrt inReadingOrder [stepC, stepB, stepA]"
    by (simp_all add: inReadingOrder_def ymin_def xmin_def stepA_def stepB_def stepC_def)
  ultimately show ?thesis using circle by simp
qed

text \<open>Hence no engine stores these three bubbles in reading order.\<close>

lemma stepping_bubbles_never_sorted:
  assumes "mset (sortBubbles Array_sort [stepA, stepB, stepC]) = mset [stepA, stepB, stepC]"
  shows "\<not> sorted_wrt inReadingOrder (sortBubbles Array_sort [stepA, stepB, stepC])"
proof
  assume s: "sorted_wrt inReadingOrder (sortBubbles Array_sort [stepA, stepB, stepC])"
  let ?out = "sortBubbles Array_sort [stepA, stepB, stepC]"
  have ne: "\<not> inReadingOrder stepA stepB" "\<not> inReadingOrder stepB stepC"
    "\<not> inReadingOrder stepC stepA"
    by (simp_all add: inReadingOrder_def ymin_def xmin_def stepA_def stepB_def stepC_def)
  from assms have "length ?out = length [stepA, stepB, stepC]"
    by (rule mset_eq_length)
  then obtain p q r where out: "?out = [p, q, r]"
    by (auto simp: length_Suc_conv)
  have "set ?out = set [stepA, stepB, stepC]"
    using assms by (rule mset_eq_setD)
  with out have mem: "stepA = p \<or> stepA = q \<or> stepA = r"
    "stepB = p \<or> stepB = q \<or> stepB = r" "stepC = p \<or> stepC = q \<or> stepC = r"
    by auto
  from s out have P: "inReadingOrder p q" "inReadingOrder p r" "inReadingOrder q r"
    by simp_all
  have d: "stepA \<noteq> stepB" "stepA \<noteq> stepC" "stepB \<noteq> stepC"
    by (simp_all add: stepA_def stepB_def stepC_def)
  show False
    using mem P ne d by metis
qed

section \<open>Properties of the analysis cache\<close>

text \<open>What each loop over the cache leaves at an index.\<close>


lemma markUnlessComplete_apply:
  "markUnlessComplete s startPage endPage prev i =
     (if startPage \<le> i \<and> i < endPage \<and> map_option status (prev i) \<noteq> Some Complete
      then Some \<lparr>bubbles = [], status = s\<rparr> else prev i)"
proof (induction endPage)
  case 0
  then show ?case by (simp add: markUnlessComplete_def)
next
  case (Suc n)
  show ?case
  proof (cases "startPage \<le> n")
    case True
    then have "markUnlessComplete s startPage (Suc n) prev
                 = (let m = markUnlessComplete s startPage n prev
                    in if map_option status (m n) \<noteq> Some Complete
                       then m(n \<mapsto> \<lparr>bubbles = [], status = s\<rparr>) else m)"
      by (simp add: markUnlessComplete_def Let_def)
    then show ?thesis using Suc True by (auto simp: Let_def)
  next
    case False
    then show ?thesis using Suc by (auto simp: markUnlessComplete_def)
  qed
qed

lemma markError_apply:
  "markError startPage endPage prev i =
     (if startPage \<le> i \<and> i < endPage then Some \<lparr>bubbles = [], status = Error\<rparr> else prev i)"
proof (induction endPage)
  case 0
  then show ?case by (simp add: markError_def)
next
  case (Suc n)
  show ?case
  proof (cases "startPage \<le> n")
    case True
    then have "markError startPage (Suc n) prev
                 = (markError startPage n prev)(n \<mapsto> \<lparr>bubbles = [], status = Error\<rparr>)"
      by (simp add: markError_def)
    then show ?thesis using Suc True by auto
  next
    case False
    then show ?thesis using Suc by (auto simp: markError_def)
  qed
qed

lemma storeResults_apply:
  "storeResults Array_sort startPage batchResults prev i =
     (if startPage \<le> i \<and> i < startPage + length batchResults
      then Some \<lparr>bubbles = sortBubbles Array_sort (batchResults ! (i - startPage)), status = Complete\<rparr>
      else prev i)"
proof (induction batchResults rule: rev_induct)
  case Nil
  then show ?case by (auto simp: storeResults_def)
next
  case (snoc r rs)
  have "storeResults Array_sort startPage (rs @ [r]) prev
          = (storeResults Array_sort startPage rs prev)
              (startPage + length rs \<mapsto> \<lparr>bubbles = sortBubbles Array_sort r, status = Complete\<rparr>)"
    by (simp add: storeResults_def enumerate_append_eq)
  then show ?case using snoc by (auto simp: nth_append)
qed

lemma storeTexts_apply:
  "storeTexts batchStart texts prev i =
     (if batchStart \<le> i \<and> i < batchStart + length texts
      then Some (orElse (Some (texts ! (i - batchStart))) (JStr []))
      else prev i)"
proof (induction texts rule: rev_induct)
  case Nil
  then show ?case by (auto simp: storeTexts_def)
next
  case (snoc t ts)
  have "storeTexts batchStart (ts @ [t]) prev
          = (storeTexts batchStart ts prev)(batchStart + length ts \<mapsto> orElse (Some t) (JStr []))"
    by (simp add: storeTexts_def enumerate_append_eq)
  then show ?case using snoc by (auto simp: nth_append)
qed


lemma analysisCache_speakCurrentPage [simp]:
  "analysisCache (speakCurrentPage voices st) = analysisCache st"
  by (simp add: speakCurrentPage_def speakBubbles_def speakText_def startNarration_def Let_def
           split: option.splits json.splits)

lemma analysisCache_requestOCRForPage [simp]:
  "analysisCache (fst (requestOCRForPage seen index st)) = analysisCache st"
  by (simp add: requestOCRForPage_def releaseOCR_def Let_def)

lemma analysisCache_requestOCRForPage_settled [simp]:
  "analysisCache (requestOCRForPage_settled index outcome st) = analysisCache st"
  by (simp add: requestOCRForPage_settled_def releaseOCR_def split: sum.splits)

lemma analysisCache_preloadBatch_settled [simp]:
  "analysisCache (preloadBatch_settled batchIndex loaded st) = analysisCache st"
  by (simp add: preloadBatch_settled_def)

lemma analysisCache_preloadBatch:
  "analysisCache (fst (preloadBatch batchIndex st)) i =
     (if snd (preloadBatch batchIndex st) \<noteq> None \<and> startPageOf batchIndex \<le> i
         \<and> i < endPageOf st batchIndex \<and> map_option status (analysisCache st i) \<noteq> Some Complete
      then Some \<lparr>bubbles = [], status = Preloaded\<rparr> else analysisCache st i)"
  by (auto simp: preloadBatch_def Let_def markUnlessComplete_apply)

lemma analysisCache_analyzeBatch:
  "analysisCache (fst (analyzeBatch batchIndex st)) i =
     (if snd (analyzeBatch batchIndex st) \<noteq> None \<and> startPageOf batchIndex \<le> i
         \<and> i < endPageOf st batchIndex \<and> map_option status (analysisCache st i) \<noteq> Some Complete
      then Some \<lparr>bubbles = [], status = Loading\<rparr> else analysisCache st i)"
  by (auto simp: analyzeBatch_def Let_def markUnlessComplete_apply)

lemma analysisCache_analyzeBatch_settled_Inr:
  "analysisCache (analyzeBatch_settled Array_sort batchIndex (Inr batchResults) st) i =
     (if startPageOf batchIndex \<le> i \<and> i < startPageOf batchIndex + length batchResults
      then Some \<lparr>bubbles = sortBubbles Array_sort (batchResults ! (i - startPageOf batchIndex)),
                  status = Complete\<rparr>
      else analysisCache st i)"
  by (simp add: analyzeBatch_settled_def Let_def storeResults_apply)

lemma analysisCache_analyzeBatch_settled_Inl:
  "analysisCache (analyzeBatch_settled Array_sort batchIndex (Inl err) st) i =
     (if startPageOf batchIndex \<le> i \<and> i < endPageOf st batchIndex
      then Some \<lparr>bubbles = [], status = Error\<rparr>
      else analysisCache st i)"
  by (simp add: analyzeBatch_settled_def Let_def markError_apply)

section \<open>The in-flight set of the vision batches\<close>

text \<open>
  C10. \<^verbatim>\<open>preloadBatch\<close> and \<^verbatim>\<open>analyzeBatch\<close> guard on the same set \<^verbatim>\<open>processingQueue\<close> with
  the same key: once a preload of batch \<open>batchIndex\<close> has started, \<^verbatim>\<open>analyzeBatch\<close> of that batch
  returns at once, starts no work (so the remote analyzer is not called) and leaves the
  whole state, the analysis cache included, as it was; once an analysis of the batch has
  started, \<^verbatim>\<open>preloadBatch\<close> of that batch returns at once in the same way; and so do both in
  any state that has the key in the set.
\<close>

theorem shared_in_flight_set:
  "(snd (preloadBatch batchIndex st) \<noteq> None \<longrightarrow>
      analyzeBatch batchIndex (fst (preloadBatch batchIndex st))
        = (fst (preloadBatch batchIndex st), None)) \<and>
   (snd (analyzeBatch batchIndex st) \<noteq> None \<longrightarrow>
      preloadBatch batchIndex (fst (analyzeBatch batchIndex st))
        = (fst (analyzeBatch batchIndex st), None)) \<and>
   (batchIndex \<in> processingQueue st \<longrightarrow>
      analyzeBatch batchIndex st = (st, None) \<and> preloadBatch batchIndex st = (st, None))"
  by (simp add: preloadBatch_def analyzeBatch_def Let_def)

lemma snd_preloadBatch_onePage: "snd (preloadBatch 0 onePage) = Some [0]"
  by (simp add: preloadBatch_def onePage_def mount_def startPageOf_def endPageOf_def
        BATCH_SIZE_def Let_def)

lemma snd_analyzeBatch_onePage: "snd (analyzeBatch 0 onePage) = Some [0]"
  by (simp add: analyzeBatch_def onePage_def mount_def startPageOf_def endPageOf_def
        BATCH_SIZE_def Let_def)

theorem shared_in_flight_set_witness:
  "snd (preloadBatch 0 onePage) = Some [0] \<and>
   snd (analyzeBatch 0 (fst (preloadBatch 0 onePage))) = None \<and>
   analysisCache (fst (analyzeBatch 0 (fst (preloadBatch 0 onePage)))) 0
     = Some \<lparr>bubbles = [], status = Preloaded\<rparr> \<and>
   snd (analyzeBatch 0 onePage) = Some [0] \<and>
   snd (preloadBatch 0 (fst (analyzeBatch 0 onePage))) = None \<and>
   0 \<in> processingQueue (fst (analyzeBatch 0 onePage)) \<and>
   analyzeBatch 0 (fst (analyzeBatch 0 onePage)) = (fst (analyzeBatch 0 onePage), None)"
proof -
  have q: "0 \<in> processingQueue (fst (analyzeBatch 0 onePage))"
    by (simp add: analyzeBatch_def onePage_def mount_def Let_def)
  have c: "analysisCache (fst (preloadBatch 0 onePage)) 0
             = Some \<lparr>bubbles = [], status = Preloaded\<rparr>"
    by (simp add: analysisCache_preloadBatch snd_preloadBatch_onePage)
       (simp add: onePage_def mount_def startPageOf_def endPageOf_def BATCH_SIZE_def)
  show ?thesis
    using shared_in_flight_set[of 0 onePage]
          shared_in_flight_set[of 0 "fst (analyzeBatch 0 onePage)"]
          snd_preloadBatch_onePage snd_analyzeBatch_onePage q c
    by simp
qed

section \<open>Complete entries\<close>

text \<open>
  C5, as amended. Once the entry of a page is complete, preload marking and batch-start
  marking leave its status and its bubbles as they are, and so do the completion of a
  preload, the OCR requests and the narration. A batch success leaves the status
  complete; it replaces the bubbles by the newly returned ones, sorted, for each page
  the response covers.
\<close>

theorem complete_entry_kept:
  assumes "analysisCache st i = Some e" and "status e = Complete"
  shows "analysisCache (fst (preloadBatch batchIndex st)) i = Some e \<and>
         analysisCache (fst (analyzeBatch batchIndex st)) i = Some e \<and>
         analysisCache (preloadBatch_settled batchIndex loaded st) i = Some e \<and>
         analysisCache (fst (requestOCRForPage seen index st)) i = Some e \<and>
         analysisCache (requestOCRForPage_settled index outcome st) i = Some e \<and>
         analysisCache (speakCurrentPage voices st) i = Some e \<and>
         analysisCache (analyzeBatch_settled Array_sort batchIndex (Inr batchResults) st) i
           = (if startPageOf batchIndex \<le> i \<and> i < startPageOf batchIndex + length batchResults
              then Some \<lparr>bubbles = sortBubbles Array_sort (batchResults ! (i - startPageOf batchIndex)),
                          status = Complete\<rparr>
              else Some e) \<and>
         map_option status (analysisCache (analyzeBatch_settled Array_sort batchIndex (Inr batchResults) st) i)
           = Some Complete"
  using assms
  by (simp add: analysisCache_preloadBatch analysisCache_analyzeBatch
        analysisCache_analyzeBatch_settled_Inr)

section \<open>The worked examples, evaluated\<close>

lemma range3: "[0..<3] = [0, 1, 2]" "[0..<2] = [0,1]" "[0..<Suc 0] = [0]"
  by (simp_all add: upt_rec)

lemma firstClick_eval:
  "snd firstClick = Some [''page0'', ''page1'', ''page2'']"
  "pendingOCRBatches (fst firstClick) = {0}"
  "pages (fst firstClick) = [''page0'', ''page1'', ''page2'']"
  by (simp_all add: firstClick_def threePages_def mount_def requestOCRForPage_def Let_def
        releaseOCR_def isCached_def range3)

lemma secondClick_eval:
  "snd secondClick = None"
  "pendingOCRBatches (fst secondClick) = {}"
  "pages (fst secondClick) = [''page0'', ''page1'', ''page2'']"
  by (simp_all add: secondClick_def requestOCRForPage_def Let_def firstClick_eval
        releaseOCR_def isCached_def range3)

lemma thirdClick_eval:
  "snd thirdClick = Some [''page0'', ''page1'', ''page2'']"
  by (simp_all add: thirdClick_def requestOCRForPage_def Let_def secondClick_eval
        releaseOCR_def isCached_def range3)

text \<open>
  C6, at the failing input: three calls of \<^verbatim>\<open>requestOCRForPage(0)\<close> on a three-page manga
  before the first one settles. The first call puts key 0 into \<^verbatim>\<open>pendingOCRBatches\<close> and
  calls \<^verbatim>\<open>performBatchedOCR\<close>. The second returns at the guard, and its \<^verbatim>\<open>finally\<close> block
  deletes key 0 although the first call is still in flight. The third therefore passes
  the guard and calls \<^verbatim>\<open>performBatchedOCR\<close> again: two remote calls for one key.
\<close>

theorem ocr_key_released_by_duplicate_request:
  "snd firstClick = Some [''page0'', ''page1'', ''page2''] \<and>
   0 \<in> pendingOCRBatches (fst firstClick) \<and>
   snd secondClick = None \<and>
   0 \<notin> pendingOCRBatches (fst secondClick) \<and>
   snd thirdClick = Some [''page0'', ''page1'', ''page2'']"
  by (simp add: firstClick_eval secondClick_eval thirdClick_eval)

lemma completedPage_cache:
  "analysisCache completedPage 0 = Some \<lparr>bubbles = [box10], status = Complete\<rparr>"
  by (simp add: completedPage_def analysisCache_analyzeBatch_settled_Inr startPageOf_def
        sortBubbles_def)

lemma completedPage_eval:
  "pages completedPage = [''page0'']"
  "processingQueue completedPage = {}"
  by (simp_all add: completedPage_def analyzeBatch_settled_def analyzeBatch_def Let_def
        onePage_def mount_def)

text \<open>
  C5 as stated fails: page 0 is complete with one bubble; a second analysis of its batch
  that succeeds with an empty result replaces the bubbles, and one that fails sets the
  entry to error.
\<close>

theorem complete_entry_overwritten:
  "analysisCache completedPage 0 = Some \<lparr>bubbles = [box10], status = Complete\<rparr> \<and>
   analysisCache (analyzeBatch_settled insertionSort 0 (Inr [[]]) (fst (analyzeBatch 0 completedPage))) 0
     = Some \<lparr>bubbles = [], status = Complete\<rparr> \<and>
   analysisCache (analyzeBatch_settled insertionSort 0 (Inl ''Failed to fetch'') (fst (analyzeBatch 0 completedPage))) 0
     = Some \<lparr>bubbles = [], status = Error\<rparr>"
  by (simp add: completedPage_cache completedPage_eval analysisCache_analyzeBatch_settled_Inr
        analysisCache_analyzeBatch_settled_Inl startPageOf_def endPageOf_def BATCH_SIZE_def
        sortBubbles_def analyzeBatch_def Let_def)

theorem complete_entry_kept_witness:
  "analysisCache completedPage 0 = Some \<lparr>bubbles = [box10], status = Complete\<rparr> \<and>
   analysisCache (fst (preloadBatch 0 completedPage)) 0
     = Some \<lparr>bubbles = [box10], status = Complete\<rparr> \<and>
   analysisCache (fst (analyzeBatch 0 completedPage)) 0
     = Some \<lparr>bubbles = [box10], status = Complete\<rparr> \<and>
   analysisCache (analyzeBatch_settled insertionSort 0 (Inr [[box15]]) completedPage) 0
     = Some \<lparr>bubbles = [box15], status = Complete\<rparr>"
  using complete_entry_kept[where st = completedPage and i = 0
          and e = "\<lparr>bubbles = [box10], status = Complete\<rparr>" and batchIndex = 0
          and loaded = "[]" and seen = Map.empty and index = 0 and outcome = "Inl []"
          and voices = "[]" and Array_sort = insertionSort and batchResults = "[[box15]]"]
  by (simp add: completedPage_cache startPageOf_def sortBubbles_def)

text \<open>
  C7, at the failing input: a manga of two pages, batch 0, and a response whose array
  has three entries. \<^verbatim>\<open>analyzeMangaPages\<close> resolves with three results for the two images,
  and the success update writes one entry per result, so it writes the entry of page
  index 2, which is no page.
\<close>

theorem out_of_range_write:
  "length (pages twoPages) = 2 \<and>
   snd (analyzeBatch 0 twoPages) = Some [0, 1] \<and>
   analyzeMangaPages (parseTable [(''[{},{},{}]'', JArr [JObj [], JObj [], JObj []])])
       [''image0'', ''image1''] (Inr (Some ''[{},{},{}]''))
     = Inr [JArr [], JArr [], JArr []] \<and>
   analysisCache (analyzeBatch_settled insertionSort 0 (Inr [[], [], []]) (fst (analyzeBatch 0 twoPages))) 2
     = Some \<lparr>bubbles = [], status = Complete\<rparr>"
proof -
  have remote:
    "analyzeMangaPages (parseTable [(''[{},{},{}]'', JArr [JObj [], JObj [], JObj []])])
         [''image0'', ''image1''] (Inr (Some ''[{},{},{}]''))
       = Inr [JArr [], JArr [], JArr []]"
    by (simp add: analyzeMangaPages_def parseTable_def pageBubbles_def orElse_def)
  have cache:
    "length (pages twoPages) = 2 \<and>
     snd (analyzeBatch 0 twoPages) = Some [0, 1] \<and>
     analysisCache (analyzeBatch_settled insertionSort 0 (Inr [[], [], []]) (fst (analyzeBatch 0 twoPages))) 2
       = Some \<lparr>bubbles = [], status = Complete\<rparr>"
    by (simp add: twoPages_def mount_def analyzeBatch_def Let_def startPageOf_def endPageOf_def
          BATCH_SIZE_def range3 analysisCache_analyzeBatch_settled_Inr sortBubbles_def)
  show ?thesis using remote cache by simp
qed

section \<open>Properties of \<^verbatim>\<open>analyzeMangaPages\<close>\<close>

lemma analyzeMangaPages_never_rejects:
  "\<exists>results. analyzeMangaPages JSON_parse base64Images response = Inr results"
  by (simp add: analyzeMangaPages_def split: sum.splits option.splits json.splits)

lemma length_mapThrowing: "mapThrowing f xs = Inr ys \<Longrightarrow> length ys = length xs"
  by (induction xs arbitrary: ys) (auto split: sum.splits)

lemma analyzeMangaPages_length:
  assumes "analyzeMangaPages JSON_parse base64Images response = Inr results"
  shows "length results = length base64Images \<or>
         (\<exists>txt parsed. response = Inr (Some txt) \<and> JSON_parse txt = Inr (JArr parsed)
                         \<and> length results = length parsed)"
  using assms
  by (auto simp: analyzeMangaPages_def dest: length_mapThrowing
           split: sum.splits option.splits json.splits if_splits)

lemma analyzeMangaPages_no_response:
  assumes "response = Inl err \<or> response = Inr None \<or> response = Inr (Some [])"
  shows "analyzeMangaPages JSON_parse base64Images response
           = Inr (map (\<lambda>_. JArr []) base64Images)"
  using assms by (auto simp: analyzeMangaPages_def)

lemma analyzeMangaPages_malformed:
  assumes "JSON_parse txt = Inl e"
  shows "analyzeMangaPages JSON_parse base64Images (Inr (Some txt))
           = Inr (map (\<lambda>_. JArr []) base64Images)"
  using assms by (simp add: analyzeMangaPages_def)

lemma analyzeMangaPages_not_array:
  assumes "JSON_parse txt = Inr v" and "\<forall>parsed. v \<noteq> JArr parsed"
  shows "analyzeMangaPages JSON_parse base64Images (Inr (Some txt))
           = Inr (map (\<lambda>_. JArr []) base64Images)"
  using assms by (cases v) (simp_all add: analyzeMangaPages_def)

text \<open>
  C3, at the failing input: two images, and a response whose array holds one page
  result. \<^verbatim>\<open>analyzeMangaPages\<close> resolves (it never rejects), but with one result instead
  of two: the array is returned at the length the model gave it, without padding.
\<close>

theorem analyzeMangaPages_drops_pages:
  "analyzeMangaPages (parseTable [(onePageResponse, JArr [JObj [(''bubbles'', JArr [])]])])
      [''image0'', ''image1''] (Inr (Some onePageResponse))
     = Inr [JArr []]"
  by (simp add: analyzeMangaPages_def parseTable_def onePageResponse_def quoted_def
        pageBubbles_def orElse_def)

section \<open>Properties of \<^verbatim>\<open>performBatchedOCR\<close>\<close>

lemma performBatchedOCR_length:
  "performBatchedOCR JSON_parse imageUrls merged response = Inr texts
     \<Longrightarrow> length texts = length imageUrls"
  by (auto simp: performBatchedOCR_def split: sum.splits option.splits json.splits if_splits)

text \<open>
  C4, as amended. \<^verbatim>\<open>performBatchedOCR\<close> either rejects or resolves with exactly one value
  per requested page. It rejects with the error of the merge or of the remote call when
  one of them fails, and with the descriptive error
  \<^verbatim>\<open>JSON parse failed: <message>. Raw: <first 100 characters>\<close> when the cleaned response
  does not parse. When the response text is absent or empty, or parses to a value that is
  not an array, it resolves with one empty string per page. When it parses to an array,
  position \<open>i\<close> gets the element at \<open>i\<close> if there is one and it is truthy, and the empty string
  otherwise.
\<close>

theorem performBatchedOCR_outcomes:
  "(\<forall>texts. performBatchedOCR JSON_parse imageUrls merged response = Inr texts \<longrightarrow>
       length texts = length imageUrls) \<and>
   (merged = Inl err \<longrightarrow> performBatchedOCR JSON_parse imageUrls merged response = Inl err) \<and>
   (merged = Inr mergedBase64 \<and> response = Inl err \<longrightarrow>
       performBatchedOCR JSON_parse imageUrls merged response = Inl err) \<and>
   (merged = Inr mergedBase64 \<and> response = Inr (Some txt) \<and> txt \<noteq> [] \<and>
      parsedResponse JSON_parse txt = Inl message \<longrightarrow>
       performBatchedOCR JSON_parse imageUrls merged response
         = Inl (''JSON parse failed: '' @ message @ ''. Raw: '' @ take 100 txt)) \<and>
   (merged = Inr mergedBase64 \<and> (response = Inr None \<or> response = Inr (Some [])) \<longrightarrow>
       performBatchedOCR JSON_parse imageUrls merged response
         = Inr (map (\<lambda>_. JStr []) imageUrls)) \<and>
   (merged = Inr mergedBase64 \<and> response = Inr (Some txt) \<and> txt \<noteq> [] \<and>
      parsedResponse JSON_parse txt = Inr v \<and> (\<forall>parsed. v \<noteq> JArr parsed) \<longrightarrow>
       performBatchedOCR JSON_parse imageUrls merged response
         = Inr (map (\<lambda>_. JStr []) imageUrls)) \<and>
   (merged = Inr mergedBase64 \<and> response = Inr (Some txt) \<and> txt \<noteq> [] \<and>
      parsedResponse JSON_parse txt = Inr (JArr parsed) \<longrightarrow>
       performBatchedOCR JSON_parse imageUrls merged response
         = Inr (map (\<lambda>i. orElse (elemAt parsed i) (JStr [])) [0..<length imageUrls]))"
  by (auto simp: performBatchedOCR_def split: sum.splits option.splits json.splits if_splits)

lemma cleaned_examples:
  "cleanedResponse ''oops'' = ''oops''"
  "cleanedResponse ''{}'' = ''{}''"
  "cleanedResponse noDialogueResponse = noDialogueResponse"
  by (simp_all add: cleanedResponse_def trim_def isWhiteSpace_def noDialogueResponse_def quoted_def
        sameIgnoringCase_def toUpper_def)

text \<open>
  C4 as stated fails: an absent response text, an empty one and one that parses to an
  object all resolve with three empty strings, which is also the result of the genuine
  answer \<^verbatim>\<open>["","",""]\<close>.
\<close>

theorem silent_empty_strings:
  "performBatchedOCR (parseTable []) [''page0'', ''page1'', ''page2''] (Inr ''merged'') (Inr None)
     = Inr [JStr [], JStr [], JStr []] \<and>
   performBatchedOCR (parseTable []) [''page0'', ''page1'', ''page2''] (Inr ''merged'') (Inr (Some []))
     = Inr [JStr [], JStr [], JStr []] \<and>
   performBatchedOCR (parseTable [(''{}'', JObj [])]) [''page0'', ''page1'', ''page2'']
       (Inr ''merged'') (Inr (Some ''{}''))
     = Inr [JStr [], JStr [], JStr []] \<and>
   performBatchedOCR (parseTable [(noDialogueResponse, JArr [JStr [], JStr [], JStr []])])
       [''page0'', ''page1'', ''page2''] (Inr ''merged'') (Inr (Some noDialogueResponse))
     = Inr [JStr [], JStr [], JStr []]"
  by (simp add: performBatchedOCR_def parsedResponse_def cleaned_examples parseTable_def
        orElse_def elemAt_def range3)

theorem performBatchedOCR_outcomes_witness:
  "performBatchedOCR (parseTable []) [''page0'', ''page1'', ''page2'']
       (Inr ''merged'') (Inr (Some ''oops''))
     = Inl ''JSON parse failed: Unexpected token. Raw: oops'' \<and>
   performBatchedOCR (parseTable [(''{}'', JObj [])]) [''page0'', ''page1'', ''page2'']
       (Inr ''merged'') (Inr (Some ''{}''))
     = Inr [JStr [], JStr [], JStr []] \<and>
   performBatchedOCR (parseTable []) [''page0'', ''page1'', ''page2''] (Inr ''merged'') (Inr None)
     = Inr [JStr [], JStr [], JStr []] \<and>
   performBatchedOCR (parseTable []) [''page0'', ''page1'', ''page2'']
       (Inl ''Failed to load image page0'') (Inr None)
     = Inl ''Failed to load image page0''"
proof -
  have a: "parsedResponse (parseTable []) ''oops'' = Inl ''Unexpected token''"
    by (simp add: parsedResponse_def cleaned_examples parseTable_def)
  have b: "parsedResponse (parseTable [(''{}'', JObj [])]) ''{}'' = Inr (JObj [])"
    by (simp add: parsedResponse_def cleaned_examples parseTable_def)
  show ?thesis
    using performBatchedOCR_outcomes[of "parseTable []" "[''page0'', ''page1'', ''page2'']"
            "Inr ''merged''" "Inr (Some ''oops'')" "[]" "''merged''" "''oops''"
            "''Unexpected token''"]
          performBatchedOCR_outcomes[of "parseTable [(''{}'', JObj [])]"
            "[''page0'', ''page1'', ''page2'']"
            "Inr ''merged''" "Inr (Some ''{}'')" "[]" "''merged''" "''{}''" "[]" "JObj []"]
          performBatchedOCR_outcomes[of "parseTable []" "[''page0'', ''page1'', ''page2'']"
            "Inr ''merged''" "Inr None" "[]" "''merged''"]
          performBatchedOCR_outcomes[of "parseTable []" "[''page0'', ''page1'', ''page2'']"
            "Inl ''Failed to load image page0''" "Inr None" "''Failed to load image page0''"]
          a b
    by simp
qed

section \<open>Properties of the text cache\<close>

lemma requestOCRForPage_all_cached:
  "list_all (isCached seen) [index..<min (index + 3) (length (pages st))]
     \<Longrightarrow> snd (requestOCRForPage seen index st) = None"
  by (simp add: requestOCRForPage_def Let_def)

lemma requestOCRForPage_request:
  "snd (requestOCRForPage seen index st) = Some urls \<longleftrightarrow>
     \<not> list_all (isCached seen) [index..<min (index + 3) (length (pages st))]
     \<and> index \<notin> pendingOCRBatches st
     \<and> urls = take 3 (drop index (pages st)) \<and> urls \<noteq> []"
  by (auto simp: requestOCRForPage_def Let_def)

lemma pages_requestOCRForPage [simp]:
  "pages (fst (requestOCRForPage seen index st)) = pages st"
  by (simp add: requestOCRForPage_def releaseOCR_def Let_def)

lemma pages_requestOCRForPage_settled [simp]:
  "pages (requestOCRForPage_settled index outcome st) = pages st"
  by (simp add: requestOCRForPage_settled_def releaseOCR_def split: sum.splits)

lemma pending_requestOCRForPage_settled [simp]:
  "pendingOCRBatches (requestOCRForPage_settled index outcome st) = pendingOCRBatches st - {index}"
  by (simp add: requestOCRForPage_settled_def releaseOCR_def split: sum.splits)

lemma ocrTextCache_requestOCRForPage [simp]:
  "ocrTextCache (fst (requestOCRForPage seen index st)) = ocrTextCache st"
  by (simp add: requestOCRForPage_def releaseOCR_def Let_def)

lemma ocrTextCache_settled_Inr:
  "ocrTextCache (requestOCRForPage_settled index (Inr texts) st) i =
     (if index \<le> i \<and> i < index + length texts
      then Some (orElse (Some (texts ! (i - index))) (JStr []))
      else ocrTextCache st i)"
  by (simp add: requestOCRForPage_settled_def releaseOCR_def storeTexts_apply)


text \<open>
  C1, as amended. For a stacked-OCR request over three pages starting at index \<open>s\<close>, when
  the backend answers with the strings "Hello", "", "World", the text cache afterwards
  maps \<open>s\<close> to "Hello", \<open>s + 1\<close> to "" and \<open>s + 2\<close> to "World". A subsequent
  \<^verbatim>\<open>requestOCRForPage\<close> for the same pages is not a no-op: the page cached as the empty
  string counts as not cached, so the request calls \<^verbatim>\<open>performBatchedOCR\<close> again for the
  same three pages, whether the callback reads the updated cache or the one it captured
  before.
\<close>

theorem empty_text_requested_again:
  assumes first: "snd (requestOCRForPage seen s st) = Some urls"
    and three: "s + 3 \<le> length (pages st)"
    and answer: "txt \<noteq> []"
      "parsedResponse JSON_parse txt = Inr (JArr [JStr ''Hello'', JStr [], JStr ''World''])"
  shows "let st' = requestOCRForPage_settled s
                     (performBatchedOCR JSON_parse urls (Inr mergedBase64) (Inr (Some txt)))
                     (fst (requestOCRForPage seen s st))
         in ocrTextCache st' s = Some (JStr ''Hello'') \<and>
            ocrTextCache st' (s + 1) = Some (JStr []) \<and>
            ocrTextCache st' (s + 2) = Some (JStr ''World'') \<and>
            snd (requestOCRForPage (ocrTextCache st') s st') = Some urls \<and>
            snd (requestOCRForPage seen s st') = Some urls"
proof -
  from first have req:
    "\<not> list_all (isCached seen) [s..<min (s + 3) (length (pages st))]
     \<and> s \<notin> pendingOCRBatches st
     \<and> urls = take 3 (drop s (pages st)) \<and> urls \<noteq> []"
    by (rule iffD1[OF requestOCRForPage_request])
  note notall = req[THEN conjunct1]
    and urls = req[THEN conjunct2, THEN conjunct2, THEN conjunct1]
    and ne = req[THEN conjunct2, THEN conjunct2, THEN conjunct2]
  from urls three have len: "length urls = 3" by simp
  have res: "performBatchedOCR JSON_parse urls (Inr mergedBase64) (Inr (Some txt))
               = Inr [JStr ''Hello'', JStr [], JStr ''World'']"
    using answer len by (simp add: performBatchedOCR_def range3 orElse_def elemAt_def)
  define st' where "st' = requestOCRForPage_settled s
                     (Inr [JStr ''Hello'', JStr [], JStr ''World''])
                     (fst (requestOCRForPage seen s st))"
  have c0: "ocrTextCache st' s = Some (JStr ''Hello'')"
    and c1: "ocrTextCache st' (s + 1) = Some (JStr [])"
    and c2: "ocrTextCache st' (s + 2) = Some (JStr ''World'')"
    by (simp_all add: st'_def ocrTextCache_settled_Inr orElse_def)
  have pg: "pages st' = pages st" by (simp add: st'_def)
  have pend: "s \<notin> pendingOCRBatches st'" by (simp add: st'_def)
  have mn: "min (s + 3) (length (pages st)) = s + 3" using three by simp
  have mem: "s + 1 \<in> set [s..<s + 3]" by simp
  have "\<not> isCached (ocrTextCache st') (s + 1)"
    using c1 by (simp add: isCached_def)
  then have notall': "\<not> list_all (isCached (ocrTextCache st')) [s..<s + 3]"
    using mem unfolding list_all_iff by blast
  have again: "snd (requestOCRForPage (ocrTextCache st') s st') = Some urls"
    using notall' pend urls ne by (simp add: requestOCRForPage_request pg mn)
  have stale: "snd (requestOCRForPage seen s st') = Some urls"
    using notall pend urls ne by (simp add: requestOCRForPage_request pg)
  show ?thesis
    unfolding res Let_def st'_def[symmetric] using c0 c1 c2 again stale by simp
qed


lemma helloResponse_parsed:
  "helloResponse \<noteq> []"
  "parsedResponse helloParse helloResponse = Inr (JArr [JStr ''Hello'', JStr [], JStr ''World''])"
  by (simp_all add: parsedResponse_def helloParse_def parseTable_def cleanedResponse_def
        trim_def isWhiteSpace_def helloResponse_def quoted_def sameIgnoringCase_def toUpper_def)

lemma helloCached_cache:
  "ocrTextCache helloCached 0 = Some (JStr ''Hello'')"
  "ocrTextCache helloCached 1 = Some (JStr [])"
  "ocrTextCache helloCached 2 = Some (JStr ''World'')"
  by (simp_all add: helloCached_def performBatchedOCR_def helloResponse_parsed range3
        orElse_def elemAt_def ocrTextCache_settled_Inr)

text \<open>
  C1 as stated fails: on the three-page manga, once the answer is cached, the second
  request for the same pages does issue a remote call.
\<close>

theorem empty_text_not_cached:
  "ocrTextCache helloCached 0 = Some (JStr ''Hello'') \<and>
   ocrTextCache helloCached 1 = Some (JStr []) \<and>
   ocrTextCache helloCached 2 = Some (JStr ''World'') \<and>
   snd (requestOCRForPage (ocrTextCache helloCached) 0 helloCached) \<noteq> None"
proof -
  have pg: "pages helloCached = [''page0'', ''page1'', ''page2'']"
    by (simp add: helloCached_def firstClick_eval)
  have pend: "pendingOCRBatches helloCached = {}"
    by (simp add: helloCached_def firstClick_eval)
  have "snd (requestOCRForPage (ocrTextCache helloCached) 0 helloCached)
          = Some [''page0'', ''page1'', ''page2'']"
    using helloCached_cache
    by (simp add: requestOCRForPage_def Let_def pg pend range3 isCached_def)
  then show ?thesis using helloCached_cache by simp
qed

theorem empty_text_requested_again_witness:
  "snd (requestOCRForPage Map.empty 0 threePages) = Some [''page0'', ''page1'', ''page2''] \<and>
   ocrTextCache helloCached (0 + 1) = Some (JStr []) \<and>
   snd (requestOCRForPage (ocrTextCache helloCached) 0 helloCached)
     = Some [''page0'', ''page1'', ''page2''] \<and>
   snd (requestOCRForPage Map.empty 0 helloCached) = Some [''page0'', ''page1'', ''page2'']"
proof -
  have first: "snd (requestOCRForPage Map.empty 0 threePages)
                 = Some [''page0'', ''page1'', ''page2'']"
    using firstClick_eval(1) by (simp add: firstClick_def)
  have three: "0 + 3 \<le> length (pages threePages)"
    by (simp add: threePages_def mount_def)
  show ?thesis
    using empty_text_requested_again[OF first three helloResponse_parsed, of "''merged''"] first
    by (simp add: Let_def helloCached_def firstClick_def)
qed

section \<open>Properties of the narration\<close>

lemma utterances_of_Speak:
  "concat (map (\<lambda>c. case c of Speak u \<Rightarrow> [u] | Cancel \<Rightarrow> []) (map Speak us)) = us"
  by (induction us) simp_all

lemma utterancesSince_same [simp]: "utterancesSince st st = []"
  by (simp add: utterancesSince_def)

lemma utterancesSince_speakBubbles:
  "utterancesSince st (speakBubbles voices pageIndex st) =
     (case analysisCache st pageIndex of
        None \<Rightarrow> []
      | Some d \<Rightarrow>
          if status d = Complete \<and> bubbles d \<noteq> []
             \<and> \<not> (lastSpokenPageIndexRef st = Some pageIndex \<and> speaking st)
          then map (\<lambda>b. newUtterance voices (bubble_text b)) (bubbles d)
          else [])"
  by (auto simp: speakBubbles_def startNarration_def Let_def utterancesSince_def
        utterances_of_Speak comp_def split: option.splits)

text \<open>
  C2, as amended. For a page whose text cache entry is the empty string,
  \<^verbatim>\<open>speakCurrentPage\<close> never speaks the cached text. With narration and analysis mode both
  switched on it falls back to the bubbles: if the analysis entry of the page is complete
  with a non-empty bubble list, and the page is not already being spoken, it speaks the
  text of each bubble as one utterance, in the stored order; otherwise it produces no
  utterance. With narration or analysis mode switched off it does nothing and produces
  no utterance.
\<close>

theorem empty_text_falls_back_to_bubbles:
  assumes "ocrTextCache st (currentIndex st) = Some (JStr [])"
  shows "speakCurrentPage voices st =
           (if ttsEnabled st \<and> isAnalysisEnabled st
            then speakBubbles voices (currentIndex st) st else st) \<and>
         utterancesSince st (speakCurrentPage voices st) =
           (if ttsEnabled st \<and> isAnalysisEnabled st
            then (case analysisCache st (currentIndex st) of
                    None \<Rightarrow> []
                  | Some d \<Rightarrow>
                      if status d = Complete \<and> bubbles d \<noteq> []
                         \<and> \<not> (lastSpokenPageIndexRef st = Some (currentIndex st) \<and> speaking st)
                      then map (\<lambda>b. newUtterance voices (bubble_text b)) (bubbles d)
                      else [])
            else [])"
proof -
  have "speakCurrentPage voices st =
          (if ttsEnabled st \<and> isAnalysisEnabled st
           then speakBubbles voices (currentIndex st) st else st)"
    using assms by (simp add: speakCurrentPage_def Let_def)
  then show ?thesis by (simp add: utterancesSince_speakBubbles)
qed

lemma emptyTextPage_eval:
  "ttsEnabled emptyTextPage" "isAnalysisEnabled emptyTextPage"
  "currentIndex emptyTextPage = 0"
  "ocrTextCache emptyTextPage 0 = Some (JStr [])"
  "analysisCache emptyTextPage 0 = Some \<lparr>bubbles = [box10], status = Complete\<rparr>"
  "lastSpokenPageIndexRef emptyTextPage = None"
  by (simp_all add: emptyTextPage_def completedPage_cache)
     (simp_all add: completedPage_def analyzeBatch_settled_def analyzeBatch_def Let_def
        onePage_def mount_def)

text \<open>
  C2 as stated fails: with the empty string cached for page 0 and a complete analysis
  holding one bubble, the narration step speaks that bubble.
\<close>

theorem empty_text_speaks_bubbles:
  "ocrTextCache emptyTextPage (currentIndex emptyTextPage) = Some (JStr []) \<and>
   utterancesSince emptyTextPage (speakCurrentPage [] emptyTextPage)
     = [\<lparr>utterance_text = ''first'', utterance_voice = None, rate = 1, pitch = 1, volume = 1\<rparr>]"
  by (simp add: speakCurrentPage_def Let_def emptyTextPage_eval utterancesSince_speakBubbles
        newUtterance_def pickVoice_def box10_def)

theorem empty_text_falls_back_to_bubbles_witness:
  "ocrTextCache emptyTextPage (currentIndex emptyTextPage) = Some (JStr []) \<and>
   speakCurrentPage [] emptyTextPage = speakBubbles [] 0 emptyTextPage \<and>
   map utterance_text (utterancesSince emptyTextPage (speakCurrentPage [] emptyTextPage))
     = [''first''] \<and>
   ocrTextCache (emptyTextPage\<lparr>ttsEnabled := False\<rparr>)
       (currentIndex (emptyTextPage\<lparr>ttsEnabled := False\<rparr>)) = Some (JStr []) \<and>
   utterancesSince (emptyTextPage\<lparr>ttsEnabled := False\<rparr>)
       (speakCurrentPage [] (emptyTextPage\<lparr>ttsEnabled := False\<rparr>)) = []"
proof -
  have hyp: "ocrTextCache emptyTextPage (currentIndex emptyTextPage) = Some (JStr [])"
    by (simp add: emptyTextPage_eval)
  note fallback = empty_text_falls_back_to_bubbles[OF hyp, of "[]"]
  have a: "speakCurrentPage [] emptyTextPage = speakBubbles [] 0 emptyTextPage"
    using fallback[THEN conjunct1] by (simp add: emptyTextPage_eval)
  have b: "map utterance_text (utterancesSince emptyTextPage (speakCurrentPage [] emptyTextPage))
             = [''first'']"
    unfolding fallback[THEN conjunct2]
    by (simp add: emptyTextPage_eval newUtterance_def box10_def)
  have hyp': "ocrTextCache (emptyTextPage\<lparr>ttsEnabled := False\<rparr>)
                (currentIndex (emptyTextPage\<lparr>ttsEnabled := False\<rparr>)) = Some (JStr [])"
    by (simp add: emptyTextPage_eval)
  have c: "utterancesSince (emptyTextPage\<lparr>ttsEnabled := False\<rparr>)
             (speakCurrentPage [] (emptyTextPage\<lparr>ttsEnabled := False\<rparr>)) = []"
    unfolding empty_text_falls_back_to_bubbles[OF hyp', of "[]", THEN conjunct2]
    by simp
  show ?thesis using a b c hyp hyp' by simp
qed

section \<open>The guards and the clipping, path by path\<close>

text \<open>
  The vision domain: a key in the set stops \<^verbatim>\<open>analyzeBatch\<close> at its first line, the
  completion removes the key on success and on failure, and nothing but the completion of
  that batch removes it.
\<close>

lemma analyzeBatch_in_flight:
  "batchIndex \<in> processingQueue st \<Longrightarrow> analyzeBatch batchIndex st = (st, None)"
  by (simp add: analyzeBatch_def)

lemma analyzeBatch_settled_releases:
  "batchIndex \<notin> processingQueue (analyzeBatch_settled Array_sort batchIndex outcome st)"
  by (simp add: analyzeBatch_settled_def Let_def split: sum.splits)

lemma preloadBatch_settled_releases:
  "batchIndex \<notin> processingQueue (preloadBatch_settled batchIndex loaded st)"
  by (simp add: preloadBatch_settled_def)

lemma processingQueue_kept:
  assumes "k \<in> processingQueue st"
  shows "k \<in> processingQueue (fst (analyzeBatch j st))"
    and "k \<in> processingQueue (fst (preloadBatch j st))"
    and "j \<noteq> k \<Longrightarrow> k \<in> processingQueue (analyzeBatch_settled Array_sort j outcome st)"
    and "j \<noteq> k \<Longrightarrow> k \<in> processingQueue (preloadBatch_settled j loaded st)"
    and "k \<in> processingQueue (fst (requestOCRForPage seen index st))"
    and "k \<in> processingQueue (requestOCRForPage_settled index texts st)"
    and "k \<in> processingQueue (speakCurrentPage voices st)"
  using assms
  by (simp_all add: analyzeBatch_def preloadBatch_def analyzeBatch_settled_def
        preloadBatch_settled_def requestOCRForPage_def requestOCRForPage_settled_def
        releaseOCR_def speakCurrentPage_def speakBubbles_def speakText_def startNarration_def
        Let_def split: sum.splits option.splits json.splits)

text \<open>
  The OCR domain: a key in the set stops \<^verbatim>\<open>requestOCRForPage\<close> before the remote call and
  the completion removes the key on success and on failure; but every early return
  removes the key as well.
\<close>

lemma requestOCRForPage_in_flight:
  "index \<in> pendingOCRBatches st \<Longrightarrow> snd (requestOCRForPage seen index st) = None"
  by (simp add: requestOCRForPage_def Let_def)

lemma requestOCRForPage_settled_releases:
  "index \<notin> pendingOCRBatches (requestOCRForPage_settled index outcome st)"
  by simp

lemma requestOCRForPage_early_return_releases:
  "snd (requestOCRForPage seen index st) = None
     \<Longrightarrow> index \<notin> pendingOCRBatches (fst (requestOCRForPage seen index st))"
  by (simp add: requestOCRForPage_def releaseOCR_def Let_def split: if_splits)

text \<open>
  Clipping: the marking loops, the failure loop and the OCR path touch no index at or
  beyond the number of pages; the success update of a vision batch stays in range when
  it gets at most one result per page of the batch.
\<close>

lemma endPageOf_le: "endPageOf st batchIndex \<le> length (pages st)"
  by (simp add: endPageOf_def)

lemma analyzeBatch_marks_in_range:
  "analysisCache (fst (analyzeBatch batchIndex st)) i \<noteq> analysisCache st i
     \<Longrightarrow> i < length (pages st)"
  using endPageOf_le[of st batchIndex]
  by (auto simp: analysisCache_analyzeBatch split: if_splits)

lemma preloadBatch_marks_in_range:
  "analysisCache (fst (preloadBatch batchIndex st)) i \<noteq> analysisCache st i
     \<Longrightarrow> i < length (pages st)"
  using endPageOf_le[of st batchIndex]
  by (auto simp: analysisCache_preloadBatch split: if_splits)

lemma analyzeBatch_failure_in_range:
  "analysisCache (analyzeBatch_settled Array_sort batchIndex (Inl err) st) i \<noteq> analysisCache st i
     \<Longrightarrow> i < length (pages st)"
  using endPageOf_le[of st batchIndex]
  by (auto simp: analysisCache_analyzeBatch_settled_Inl split: if_splits)

lemma analyzeBatch_success_in_range:
  assumes "length batchResults \<le> endPageOf st batchIndex - startPageOf batchIndex"
    and "analysisCache (analyzeBatch_settled Array_sort batchIndex (Inr batchResults) st) i
           \<noteq> analysisCache st i"
  shows "i < length (pages st)"
  using assms endPageOf_le[of st batchIndex]
  by (auto simp: analysisCache_analyzeBatch_settled_Inr split: if_splits)

lemma requestOCRForPage_reads_in_range:
  "set [index..<min (index + 3) (length (pages st))] \<subseteq> {i. i < length (pages st)}"
  by auto

lemma requestOCRForPage_writes_in_range:
  assumes "snd (requestOCRForPage seen index st) = Some urls"
    and "performBatchedOCR JSON_parse urls merged response = Inr texts"
    and "pages st' = pages st"
    and "ocrTextCache (requestOCRForPage_settled index (Inr texts) st') i \<noteq> ocrTextCache st' i"
  shows "i < length (pages st)"
proof -
  have req:
    "\<not> list_all (isCached seen) [index..<min (index + 3) (length (pages st))]
     \<and> index \<notin> pendingOCRBatches st
     \<and> urls = take 3 (drop index (pages st)) \<and> urls \<noteq> []"
    using assms(1) by (rule iffD1[OF requestOCRForPage_request])
  have "length texts = length urls"
    using assms(2) by (rule performBatchedOCR_length)
  also have "length urls \<le> length (pages st) - index"
    using req by simp
  finally have len: "length texts \<le> length (pages st) - index" .
  have "index \<le> i \<and> i < index + length texts"
    using assms(4) by (auto simp: ocrTextCache_settled_Inr split: if_splits)
  with len show ?thesis by arith
qed

end
